theory Spec2Isabelle
  imports Complex_Main "HOL-Library.Signed_Division" "HOL-Library.Word"
begin

section \<open>Shared data model\<close>

text \<open>
  The engine's operators exchange batches of step vectors and report failures through
  Go's \<open>(value, error)\<close> return pairs. A Go \<open>error\<close> is \<open>nil\<close> or one of the values
  below; a runtime panic (index out of range, division by zero) is listed with them so
  that it is a visible outcome of the model.
\<close>

datatype error =
    ContextError string
  | ErrNotSupportedExpr string
  | UnexpectedNumberOfSamples
  | OtherError string
  | Panic string

text \<open>
  \<open>float64\<close> sample values are only moved around by the operators modelled here; they
  are carried as reals. \<open>uint64\<close> sample ids are ordinals and carried as naturals.
  \<open>int64\<close> timestamps are integers; \<open>wrap64\<close> is the two's complement wrap-around
  of Go's \<open>int64\<close> and \<open>int\<close> arithmetic (64 bits on the supported platforms).
\<close>

type_synonym float64 = real

type_synonym Labels = "(string \<times> string) list"

record StepVector =
  T :: int
  SampleIDs :: "nat list"
  Samples :: "float64 list"

definition wrap64 :: "int \<Rightarrow> int" where
  "wrap64 x = (x + 2 ^ 63) mod 2 ^ 64 - 2 ^ 63"

text \<open>
  A \<open>context.Context\<close> is reduced to what the operators read from it: \<open>ctx.Err()\<close>,
  which is non-nil exactly when \<open>ctx.Done()\<close> is closed.
\<close>

type_synonym Context = "error option"

text \<open>
  A Go slice of step vectors is \<open>nil\<close> (\<open>None\<close>) or a possibly empty list. The
  operators and the engine's \<open>Exec\<close> loop test \<open>in == nil\<close>, so the two are kept apart.
  \<open>sliceOf\<close> reads a slice where \<open>nil\<close> and the empty slice behave alike
  (\<open>len\<close>, \<open>range\<close>).
\<close>

type_synonym batch = "StepVector list option"

definition sliceOf :: "'a list option \<Rightarrow> 'a list" where
  "sliceOf b = (case b of None \<Rightarrow> [] | Some xs \<Rightarrow> xs)"

text \<open>
  \<open>model.VectorOperator\<close> is an interface; a child operator is any implementation of
  it. It is modelled as the pair of its \<open>Series\<close> and \<open>Next\<close> methods over the child's
  own state \<open>'c\<close>, each returning Go's result pair and the child's next state.
\<close>

record 'c VectorOperator =
  op_Series :: "Context \<Rightarrow> 'c \<Rightarrow> (Labels list \<times> error option) \<times> 'c"
  op_Next :: "Context \<Rightarrow> 'c \<Rightarrow> (batch \<times> error option) \<times> 'c"

text \<open>
  Modelled from the spec: \<open>model.VectorPool\<close>, which is defined in another package
  of the repository. \<open>GetStepVector(T)\<close> returns a vector initialised with timestamp \<open>T\<close> and
  empty sample and id slices; \<open>GetVectorBatch()\<close> returns an empty, non-nil batch.
\<close>

definition GetStepVector :: "int \<Rightarrow> StepVector" where
  "GetStepVector t = \<lparr>T = t, SampleIDs = [], Samples = []\<rparr>"

definition GetVectorBatch :: "StepVector list" where
  "GetVectorBatch = []"

section \<open>Vectorised aggregation tables\<close>

text \<open>
  \<open>newVectorAccumulator\<close> returns one of seven function values. They are named here
  by a datatype; the closure for the deviation kinds captures the looked-up name \<open>t\<close>,
  which its inner \<open>switch\<close> reads.
  \<^item> \<open>FloatsSum\<close>, \<open>FloatsMax\<close>, \<open>FloatsMin\<close>: gonum's \<open>floats.Sum\<close>, \<open>floats.Max\<close>,
    \<open>floats.Min\<close>;
  \<^item> \<open>CountOf\<close>: \<open>float64(len(in))\<close>;
  \<^item> \<open>Welford t\<close>: the online mean and squared-deviation loop, returning
    \<open>value / n\<close> for \<open>t = "stdvar"\<close>, its square root for \<open>t = "stddev"\<close>, else 0;
  \<^item> \<open>AvgOf\<close>: \<open>floats.Sum(in) / float64(len(in))\<close>;
  \<^item> \<open>GroupOf\<close>: the constant 1.
\<close>

datatype vectorAccumulator =
    FloatsSum
  | FloatsMax
  | FloatsMin
  | CountOf
  | Welford string
  | AvgOf
  | GroupOf

text \<open>
  The \<open>switch\<close> of \<open>newVectorAccumulator\<close> over \<open>t = parser.ItemTypeStr[expr]\<close>. A Go
  \<open>case\<close> clause does not fall through to the next one: the clause \<open>case "stddev":\<close>
  has an empty body, so control leaves the \<open>switch\<close> there and reaches the statements
  after it, which build the \<open>unknown aggregation function\<close> error. The function returns
  either \<open>(f, nil)\<close> or \<open>(nil, err)\<close>: a sum, \<open>Inl\<close> the error.
\<close>

definition newVectorAccumulator_str :: "string \<Rightarrow> error + vectorAccumulator" where
  "newVectorAccumulator_str t =
     (if t = ''sum'' then Inr FloatsSum
      else if t = ''max'' then Inr FloatsMax
      else if t = ''min'' then Inr FloatsMin
      else if t = ''count'' then Inr CountOf
      else if t = ''stddev'' then
        Inl (ErrNotSupportedExpr (''unknown aggregation function '' @ t))
      else if t = ''stdvar'' then Inr (Welford t)
      else if t = ''avg'' then Inr AvgOf
      else if t = ''group'' then Inr GroupOf
      else Inl (ErrNotSupportedExpr (''unknown aggregation function '' @ t)))"

text \<open>
  \<open>parser.ItemTypeStr\<close> belongs to the query-language parser, an external package; the
  table is a parameter. A Go map lookup of a missing key gives the empty string.
\<close>

definition newVectorAccumulator :: "('i \<rightharpoonup> string) \<Rightarrow> 'i \<Rightarrow> error + vectorAccumulator" where
  "newVectorAccumulator ItemTypeStr expr =
     newVectorAccumulator_str (case ItemTypeStr expr of None \<Rightarrow> [] | Some s \<Rightarrow> s)"

record vectorTable =
  timestamp :: int
  val :: float64
  hasValue :: bool
  accumulator :: vectorAccumulator

definition newVectorizedTable :: "vectorAccumulator \<Rightarrow> vectorTable" where
  "newVectorizedTable a = \<lparr>timestamp = 0, val = 0, hasValue = False, accumulator = a\<rparr>"

text \<open>
  \<open>newVectorizedTables\<close>: \<open>make\<close> panics on a negative length; the loop builds one
  table per slot and returns at the first accumulator error.
\<close>

fun newVectorizedTables_loop ::
  "('i \<rightharpoonup> string) \<Rightarrow> 'i \<Rightarrow> nat \<Rightarrow> vectorTable list \<Rightarrow> error + vectorTable list" where
  "newVectorizedTables_loop ItemTypeStr a 0 tables = Inr tables"
| "newVectorizedTables_loop ItemTypeStr a (Suc n) tables =
     (case newVectorAccumulator ItemTypeStr a of
        Inl err \<Rightarrow> Inl err
      | Inr acc \<Rightarrow> newVectorizedTables_loop ItemTypeStr a n (tables @ [newVectorizedTable acc]))"

definition newVectorizedTables ::
  "('i \<rightharpoonup> string) \<Rightarrow> int \<Rightarrow> 'i \<Rightarrow> error + vectorTable list" where
  "newVectorizedTables ItemTypeStr stepsBatch a =
     (if stepsBatch < 0 then Inl (Panic ''makeslice: len out of range'')
      else newVectorizedTables_loop ItemTypeStr a (nat stepsBatch) [])"

section \<open>Hash aggregation\<close>

text \<open>
  \<open>model.Series\<close> as \<open>initializeScalarTables\<close> builds it: the group's labels and its
  output ordinal.
\<close>

record Series =
  Metric :: Labels
  ID :: nat

text \<open>An aggregation table is a vectorised table or a scalar (hash) table.\<close>

datatype aggregateTable =
    VectorTable vectorTable
  | ScalarTable "nat list" "Series list"

text \<open>
  Modelled from the spec: \<open>newScalarTables\<close>, which is defined in another file of the
  package. It populates \<open>stepsBatch\<close> independent scalar tables from the input cache
  (input ordinal to output ordinal) and the output cache (the groups).
\<close>

definition newScalarTables :: "int \<Rightarrow> nat list \<Rightarrow> Series list \<Rightarrow> aggregateTable list" where
  "newScalarTables stepsBatch inputCache outputCache =
     replicate (nat stepsBatch) (ScalarTable inputCache outputCache)"

text \<open>
  A worker of the aggregation's \<open>worker.Group\<close> (another package of the repository) is
  the pair of the two calls \<open>Next\<close> makes on it. \<open>Send\<close> hands the worker a step vector,
  on which the worker runs the group's task, \<open>workerTask\<close>; \<open>GetOutput\<close> hands back the
  task's output or fails, so it takes that output as its argument.
\<close>

record worker =
  Send :: "StepVector \<Rightarrow> error option"
  GetOutput :: "StepVector \<Rightarrow> StepVector \<times> error option"

record ('c, 'i) aggregate =
  a_next :: 'c
  a_by :: bool
  a_labels :: "string list"
  a_aggregation :: 'i
  a_once :: bool
  a_tables :: "aggregateTable list"
  a_series :: "Labels list"
  a_stepsBatch :: int
  a_workers :: "worker list"
  a_workersStarted :: bool

text \<open>
  \<open>hashMetric\<close> (defined in another file of the package) is a parameter: from a series'
  labels, the \<open>without\<close> flag and the grouping labels it gives the group's hash and
  labels. \<open>errors.Is(err, parse.ErrNotSupportedExpr)\<close> holds of an error that wraps
  that sentinel.
\<close>

type_synonym hashMetricFunc = "Labels \<Rightarrow> bool \<Rightarrow> string list \<Rightarrow> nat \<times> Labels"

fun is_ErrNotSupportedExpr :: "error \<Rightarrow> bool" where
  "is_ErrNotSupportedExpr (ErrNotSupportedExpr msg) = True"
| "is_ErrNotSupportedExpr e = False"

text \<open>
  The grouping loop of \<open>initializeScalarTables\<close>: input series \<open>i\<close> is mapped to the
  group with its hash, a new group taking the next output ordinal.
\<close>

fun groupSeries ::
  "hashMetricFunc \<Rightarrow> bool \<Rightarrow> string list \<Rightarrow> Labels list \<Rightarrow> (nat \<rightharpoonup> Series) \<Rightarrow> nat list \<Rightarrow> Series list
     \<Rightarrow> nat list \<times> Series list" where
  "groupSeries hashMetric without lbs [] outputMap inputCache outputCache = (inputCache, outputCache)"
| "groupSeries hashMetric without lbs (s # rest) outputMap inputCache outputCache =
     (let (hash, lbls) = hashMetric s without lbs in
      case outputMap hash of
        Some output \<Rightarrow>
          groupSeries hashMetric without lbs rest outputMap (inputCache @ [ID output]) outputCache
      | None \<Rightarrow>
          (let output = \<lparr>Metric = lbls, ID = length outputCache\<rparr> in
           groupSeries hashMetric without lbs rest (outputMap(hash \<mapsto> output))
             (inputCache @ [ID output]) (outputCache @ [output])))"

definition initializeScalarTables ::
  "hashMetricFunc \<Rightarrow> 'c VectorOperator \<Rightarrow> Context \<Rightarrow> ('c, 'i) aggregate
     \<Rightarrow> (error + aggregateTable list \<times> Labels list) \<times> ('c, 'i) aggregate" where
  "initializeScalarTables hashMetric nx ctx a =
     (let ((series, err), c) = op_Series nx ctx (a_next a);
          a1 = a\<lparr>a_next := c\<rparr>
      in case err of
           Some e \<Rightarrow> (Inl e, a1)
         | None \<Rightarrow>
             (let (inputCache, outputCache) =
                    groupSeries hashMetric (\<not> a_by a) (a_labels a) series Map.empty [] [];
                  tables = newScalarTables (a_stepsBatch a) inputCache outputCache
              in (Inr (tables, map Metric outputCache), a1)))"

definition initializeVectorizedTables ::
  "('i \<rightharpoonup> string) \<Rightarrow> hashMetricFunc \<Rightarrow> 'c VectorOperator \<Rightarrow> Context \<Rightarrow> ('c, 'i) aggregate
     \<Rightarrow> (error + aggregateTable list \<times> Labels list) \<times> ('c, 'i) aggregate" where
  "initializeVectorizedTables ItemTypeStr hashMetric nx ctx a =
     (case newVectorizedTables ItemTypeStr (a_stepsBatch a) (a_aggregation a) of
        Inl err \<Rightarrow>
          if is_ErrNotSupportedExpr err then initializeScalarTables hashMetric nx ctx a
          else (Inl err, a)
      | Inr tables \<Rightarrow> (Inr (map VectorTable tables, [[]]), a))"

definition initializeTables ::
  "('i \<rightharpoonup> string) \<Rightarrow> hashMetricFunc \<Rightarrow> 'c VectorOperator \<Rightarrow> Context \<Rightarrow> ('c, 'i) aggregate
     \<Rightarrow> error option \<times> ('c, 'i) aggregate" where
  "initializeTables ItemTypeStr hashMetric nx ctx a =
     (let (r, a1) =
            (if a_by a \<and> length (a_labels a) = 0
             then initializeVectorizedTables ItemTypeStr hashMetric nx ctx a
             else initializeScalarTables hashMetric nx ctx a)
      in case r of
           Inl err \<Rightarrow> (Some err, a1)
         | Inr (tables, series) \<Rightarrow>
             (None, a1\<lparr>a_tables := tables, a_series := series, a_workersStarted := True\<rparr>))"

text \<open>
  \<open>a.once.Do(func() { err = a.initializeTables(ctx) })\<close>: the function runs on the
  first call only, and only that call sees its error in the local \<open>err\<close>.
\<close>

definition once_initializeTables ::
  "('i \<rightharpoonup> string) \<Rightarrow> hashMetricFunc \<Rightarrow> 'c VectorOperator \<Rightarrow> Context \<Rightarrow> ('c, 'i) aggregate
     \<Rightarrow> error option \<times> ('c, 'i) aggregate" where
  "once_initializeTables ItemTypeStr hashMetric nx ctx a =
     (if a_once a then (None, a)
      else initializeTables ItemTypeStr hashMetric nx ctx (a\<lparr>a_once := True\<rparr>))"

definition aggregate_Series ::
  "('i \<rightharpoonup> string) \<Rightarrow> hashMetricFunc \<Rightarrow> 'c VectorOperator \<Rightarrow> Context \<Rightarrow> ('c, 'i) aggregate
     \<Rightarrow> (Labels list \<times> error option) \<times> ('c, 'i) aggregate" where
  "aggregate_Series ItemTypeStr hashMetric nx ctx a =
     (let (err, a1) = once_initializeTables ItemTypeStr hashMetric nx ctx a
      in case err of
           Some e \<Rightarrow> (([], Some e), a1)
         | None \<Rightarrow> ((a_series a1, None), a1))"

text \<open>
  The methods of the vectorised table. \<open>aggregate\<close> calls the table's accumulator, a
  function value on \<open>float64\<close> slices; its arithmetic is not interpreted and the call is
  the parameter \<open>applyAccumulator\<close>.
\<close>

definition vectorTable_aggregate ::
  "(vectorAccumulator \<Rightarrow> float64 list \<Rightarrow> float64) \<Rightarrow> vectorTable \<Rightarrow> StepVector \<Rightarrow> vectorTable" where
  "vectorTable_aggregate applyAcc t vector =
     (if length (SampleIDs vector) = 0 then t\<lparr>hasValue := False\<rparr>
      else t\<lparr>hasValue := True, timestamp := T vector,
              val := applyAcc (accumulator t) (Samples vector)\<rparr>)"

definition vectorTable_toVector :: "vectorTable \<Rightarrow> StepVector" where
  "vectorTable_toVector t =
     (let result = GetStepVector (timestamp t)
      in if \<not> hasValue t then result
         else result\<lparr>T := timestamp t,
                     SampleIDs := SampleIDs result @ [0],
                     Samples := Samples result @ [val t]\<rparr>)"

text \<open>
  The scalar table's methods are defined in another file of the package. The task
  calls \<open>aggregate\<close> and then \<open>toVector\<close> on its table; for a scalar table the two calls
  together are the parameter \<open>scalarTable_run\<close>: from the table's caches and the step
  vector, the step vector returned and the table afterwards.
\<close>

record tableMethods =
  applyAccumulator :: "vectorAccumulator \<Rightarrow> float64 list \<Rightarrow> float64"
  scalarTable_run :: "nat list \<Rightarrow> Series list \<Rightarrow> StepVector \<Rightarrow> StepVector \<times> aggregateTable"

text \<open>
  \<open>workerTask\<close>: the worker's table \<open>a.tables[workerID]\<close> aggregates the step vector and
  is turned into the output step vector. The tables are mutated in place, so the task
  returns the tables afterwards; the index panics when there is no such table.
\<close>

definition workerTask ::
  "tableMethods \<Rightarrow> aggregateTable list \<Rightarrow> nat \<Rightarrow> StepVector
     \<Rightarrow> error + StepVector \<times> aggregateTable list" where
  "workerTask tm tables workerID vector =
     (if length tables \<le> workerID then Inl (Panic ''index out of range'')
      else case tables ! workerID of
             VectorTable t \<Rightarrow>
               (let t1 = vectorTable_aggregate (applyAccumulator tm) t vector
                in Inr (vectorTable_toVector t1, tables[workerID := VectorTable t1]))
           | ScalarTable inputCache outputCache \<Rightarrow>
               (let (out, table) = scalarTable_run tm inputCache outputCache vector
                in Inr (out, tables[workerID := table])))"

text \<open>
  The two loops of \<open>aggregate.Next\<close> over the input batch. In the first, step vector
  \<open>i\<close> is sent to worker \<open>i\<close>, which runs the task on it; each worker touches its own
  table only, so the tasks are run in the order of the sends. In the second, the outputs
  are collected in input order. \<open>a.workers[i]\<close> panics when the batch is longer than the
  worker group.
\<close>

fun sendAll ::
  "tableMethods \<Rightarrow> worker list \<Rightarrow> nat \<Rightarrow> StepVector list \<Rightarrow> aggregateTable list \<Rightarrow> StepVector list
     \<Rightarrow> error option \<times> StepVector list \<times> aggregateTable list" where
  "sendAll tm ws i [] tables outs = (None, outs, tables)"
| "sendAll tm ws i (vector # rest) tables outs =
     (if length ws \<le> i then (Some (Panic ''index out of range''), outs, tables)
      else case Send (ws ! i) vector of
             Some err \<Rightarrow> (Some err, outs, tables)
           | None \<Rightarrow>
               (case workerTask tm tables i vector of
                  Inl e \<Rightarrow> (Some e, outs, tables)
                | Inr (out, tables1) \<Rightarrow> sendAll tm ws (Suc i) rest tables1 (outs @ [out])))"

fun collectAll ::
  "worker list \<Rightarrow> nat \<Rightarrow> StepVector list \<Rightarrow> StepVector list \<Rightarrow> error + StepVector list" where
  "collectAll ws i [] result = Inr result"
| "collectAll ws i (out # rest) result =
     (if length ws \<le> i then Inl (Panic ''index out of range'')
      else case GetOutput (ws ! i) out of
             (output, Some err) \<Rightarrow> Inl err
           | (output, None) \<Rightarrow> collectAll ws (Suc i) rest (result @ [output]))"

definition aggregate_Next ::
  "tableMethods \<Rightarrow> ('i \<rightharpoonup> string) \<Rightarrow> hashMetricFunc \<Rightarrow> 'c VectorOperator \<Rightarrow> Context
     \<Rightarrow> ('c, 'i) aggregate \<Rightarrow> (batch \<times> error option) \<times> ('c, 'i) aggregate" where
  "aggregate_Next tm ItemTypeStr hashMetric nx ctx a =
     (case ctx of
        Some cerr \<Rightarrow> ((None, Some cerr), a)
      | None \<Rightarrow>
          (let ((inp, err), c) = op_Next nx ctx (a_next a);
               a1 = a\<lparr>a_next := c\<rparr>
           in case err of
                Some e \<Rightarrow> ((None, Some e), a1)
              | None \<Rightarrow>
                  (case inp of
                     None \<Rightarrow> ((None, None), a1)
                   | Some vs \<Rightarrow>
                       (let (ierr, a2) = once_initializeTables ItemTypeStr hashMetric nx ctx a1
                        in case ierr of
                             Some e \<Rightarrow> ((None, Some e), a2)
                           | None \<Rightarrow>
                               (case sendAll tm (a_workers a2) 0 vs (a_tables a2) [] of
                                  (Some e, outs, tables) \<Rightarrow>
                                    ((None, Some e), a2\<lparr>a_tables := tables\<rparr>)
                                | (None, outs, tables) \<Rightarrow>
                                    (case collectAll (a_workers a2) 0 outs GetVectorBatch of
                                       Inl e \<Rightarrow> ((None, Some e), a2\<lparr>a_tables := tables\<rparr>)
                                     | Inr result \<Rightarrow>
                                         ((Some result, None), a2\<lparr>a_tables := tables\<rparr>)))))))"

section \<open>Vector-scalar binary operator\<close>

text \<open>
  The loans of the vector pools are recorded as a trace of the pool calls the operator
  makes: on its own pool (\<open>o.pool\<close>) and on its child's (\<open>o.next.GetPool()\<close>).
\<close>

datatype pool = OwnPool | NextPool

datatype pool_event =
    CallGetVectorBatch pool
  | CallGetStepVector pool int
  | CallPutStepVector pool StepVector
  | CallPutVectors pool "StepVector list"

text \<open>
  The type \<open>operation\<close> is declared in another file of the package;
  the call \<open>o.operation(operands, o.operandValIdx)\<close> fixes its shape: from the two
  operands and the index of the operand to return, a value and whether to keep it.
\<close>

type_synonym operation = "float64 \<times> float64 \<Rightarrow> int \<Rightarrow> float64 \<times> bool"

type_synonym getOperandsFunc = "StepVector \<Rightarrow> nat \<Rightarrow> float64 \<Rightarrow> float64 \<times> float64"

definition getOperandsScalarLeft :: getOperandsFunc where
  "getOperandsScalarLeft v i scalar = (scalar, Samples v ! i)"

definition getOperandsScalarRight :: getOperandsFunc where
  "getOperandsScalarRight v i scalar = (Samples v ! i, scalar)"

record 'c scalarOperator =
  o_seriesOnce :: bool
  o_series :: "Labels list"
  o_scalar :: float64
  o_next :: 'c
  o_getOperands :: getOperandsFunc
  o_operandValIdx :: int
  o_operation :: operation
  o_trace :: "pool_event list"

text \<open>
  \<open>loadSeries\<close> drops the metric name (\<open>labels.MetricName\<close>, the label \<open>__name__\<close>) from
  every series of the child.
\<close>

definition scalar_loadSeries ::
  "'c VectorOperator \<Rightarrow> Context \<Rightarrow> 'c scalarOperator \<Rightarrow> error option \<times> 'c scalarOperator" where
  "scalar_loadSeries nx ctx o1 =
     (let ((vectorSeries, err), c) = op_Series nx ctx (o_next o1);
          o2 = o1\<lparr>o_next := c\<rparr>
      in case err of
           Some e \<Rightarrow> (Some e, o2)
         | None \<Rightarrow>
             (None, o2\<lparr>o_series := map (filter (\<lambda>l. fst l \<noteq> ''__name__'')) vectorSeries\<rparr>))"

definition once_scalar_loadSeries ::
  "'c VectorOperator \<Rightarrow> Context \<Rightarrow> 'c scalarOperator \<Rightarrow> error option \<times> 'c scalarOperator" where
  "once_scalar_loadSeries nx ctx o1 =
     (if o_seriesOnce o1 then (None, o1)
      else scalar_loadSeries nx ctx (o1\<lparr>o_seriesOnce := True\<rparr>))"

definition scalar_Series ::
  "'c VectorOperator \<Rightarrow> Context \<Rightarrow> 'c scalarOperator
     \<Rightarrow> (Labels list \<times> error option) \<times> 'c scalarOperator" where
  "scalar_Series nx ctx o1 =
     (let (err, o2) = once_scalar_loadSeries nx ctx o1
      in case err of
           Some e \<Rightarrow> (([], Some e), o2)
         | None \<Rightarrow> ((o_series o2, None), o2))"

text \<open>
  The inner loop of \<open>Next\<close>, \<open>for i := range vector.Samples\<close>, over the indices still to
  visit: a sample that the operation does not keep is skipped, a kept one is appended
  to \<open>step\<close> with its id; \<open>vector.SampleIDs[i]\<close> panics when the ids are too few.
\<close>

fun scalar_samples ::
  "getOperandsFunc \<Rightarrow> operation \<Rightarrow> int \<Rightarrow> float64 \<Rightarrow> StepVector \<Rightarrow> nat list \<Rightarrow> StepVector
     \<Rightarrow> error + StepVector" where
  "scalar_samples getOperands oper idx scalar vector [] step = Inr step"
| "scalar_samples getOperands oper idx scalar vector (i # rest) step =
     (let operands = getOperands vector i scalar;
          (v, keep) = oper operands idx
      in if \<not> keep then scalar_samples getOperands oper idx scalar vector rest step
         else if length (SampleIDs vector) \<le> i then Inl (Panic ''index out of range'')
         else scalar_samples getOperands oper idx scalar vector rest
                (step\<lparr>Samples := Samples step @ [v],
                      SampleIDs := SampleIDs step @ [SampleIDs vector ! i]\<rparr>))"

text \<open>
  The outer loop, \<open>for _, vector := range in\<close>: a fresh step vector is taken from the
  operator's pool for every input vector; when no sample was kept the loop
  \<open>continue\<close>s, which skips both the append to \<open>out\<close> and the return of the child's
  vector to the child's pool.
\<close>

fun scalar_vectors ::
  "getOperandsFunc \<Rightarrow> operation \<Rightarrow> int \<Rightarrow> float64 \<Rightarrow> StepVector list \<Rightarrow> StepVector list
     \<Rightarrow> pool_event list \<Rightarrow> error + StepVector list \<times> pool_event list" where
  "scalar_vectors getOperands oper idx scalar [] out tr = Inr (out, tr)"
| "scalar_vectors getOperands oper idx scalar (vector # rest) out tr =
     (let tr1 = tr @ [CallGetStepVector OwnPool (T vector)] in
      case scalar_samples getOperands oper idx scalar vector
             [0 ..< length (Samples vector)] (GetStepVector (T vector)) of
        Inl e \<Rightarrow> Inl e
      | Inr step \<Rightarrow>
          if length (Samples step) = 0
          then scalar_vectors getOperands oper idx scalar rest out tr1
          else scalar_vectors getOperands oper idx scalar rest (out @ [step])
                 (tr1 @ [CallPutStepVector NextPool vector]))"

definition scalar_Next ::
  "'c VectorOperator \<Rightarrow> Context \<Rightarrow> 'c scalarOperator
     \<Rightarrow> (batch \<times> error option) \<times> 'c scalarOperator" where
  "scalar_Next nx ctx o1 =
     (let ((inp, err), c) = op_Next nx ctx (o_next o1);
          o2 = o1\<lparr>o_next := c\<rparr>
      in case err of
           Some e \<Rightarrow> ((None, Some e), o2)
         | None \<Rightarrow>
             (case inp of
                None \<Rightarrow> ((None, None), o2)
              | Some vs \<Rightarrow>
                  (let (lerr, o3) = once_scalar_loadSeries nx ctx o2
                   in case lerr of
                        Some e \<Rightarrow> ((None, Some e), o3)
                      | None \<Rightarrow>
                          (case scalar_vectors (o_getOperands o3) (o_operation o3)
                                  (o_operandValIdx o3) (o_scalar o3) vs GetVectorBatch
                                  (o_trace o3 @ [CallGetVectorBatch OwnPool]) of
                             Inl e \<Rightarrow> ((None, Some e), o3)
                           | Inr (out, tr) \<Rightarrow>
                               ((Some out, None),
                                o3\<lparr>o_trace := tr @ [CallPutVectors NextPool vs]\<rparr>)))))"

text \<open>
  What the inner loop leaves of a step vector when no index panics: the samples the
  operation keeps, in order, each with the operation's value and the sample's id.
\<close>

definition keptStep ::
  "getOperandsFunc \<Rightarrow> operation \<Rightarrow> int \<Rightarrow> float64 \<Rightarrow> StepVector \<Rightarrow> StepVector" where
  "keptStep getOperands oper idx scalar vector =
     (let kept = filter (\<lambda>i. snd (oper (getOperands vector i scalar) idx))
                   [0 ..< length (Samples vector)]
      in \<lparr>T = T vector,
          SampleIDs = map (\<lambda>i. SampleIDs vector ! i) kept,
          Samples = map (\<lambda>i. fst (oper (getOperands vector i scalar) idx)) kept\<rparr>)"

section \<open>Step-invariant operator\<close>

text \<open>
  \<open>query.Options\<close> as the constructor reads it: \<open>Start\<close> and \<open>End\<close> through
  \<open>UnixMilli()\<close>, \<open>Step\<close> (a duration in nanoseconds) through \<open>Milliseconds()\<close>, which
  divides by \<open>10^6\<close> truncating towards zero. The expression matters by its kind only.
\<close>

record Options =
  Start_UnixMilli :: int
  End_UnixMilli :: int
  Step_ns :: int

definition Milliseconds :: "int \<Rightarrow> int" where
  "Milliseconds d = d sdiv 1000000"

datatype expr_kind = MatrixSelector | SubqueryExpr | OtherExpr

record 'c stepInvariantOperator =
  u_next :: 'c
  u_cacheResult :: bool
  u_seriesOnce :: bool
  u_series :: "Labels list"
  u_cacheVectorOnce :: bool
  u_cachedVector :: StepVector
  u_mint :: int
  u_maxt :: int
  u_step :: int
  u_currentStep :: int
  u_stepsBatch :: int

text \<open>The constructor's \<open>interval\<close>: the step in milliseconds, set to be at least 1.\<close>

definition interval :: "Options \<Rightarrow> int" where
  "interval opts =
     (if Milliseconds (Step_ns opts) = 0 then 1 else Milliseconds (Step_ns opts))"

definition NewStepInvariantOperator ::
  "'c \<Rightarrow> expr_kind \<Rightarrow> Options \<Rightarrow> int \<Rightarrow> 'c stepInvariantOperator" where
  "NewStepInvariantOperator nxt expr opts stepsBatch =
     (let interval = interval opts
      in \<lparr>u_next = nxt,
          u_cacheResult = (case expr of MatrixSelector \<Rightarrow> False | SubqueryExpr \<Rightarrow> False | OtherExpr \<Rightarrow> True),
          u_seriesOnce = False,
          u_series = [],
          u_cacheVectorOnce = False,
          u_cachedVector = \<lparr>T = 0, SampleIDs = [], Samples = []\<rparr>,
          u_mint = Start_UnixMilli opts,
          u_maxt = End_UnixMilli opts,
          u_step = interval,
          u_currentStep = Start_UnixMilli opts,
          u_stepsBatch = stepsBatch\<rparr>)"

text \<open>
  \<open>Series\<close>: the function passed to \<open>seriesOnce.Do\<close> stores both results of the child's
  \<open>Series\<close>, the series in the operator and the error in the local \<open>err\<close> of this call.
\<close>

definition stepInvariant_Series ::
  "'c VectorOperator \<Rightarrow> Context \<Rightarrow> 'c stepInvariantOperator
     \<Rightarrow> (Labels list \<times> error option) \<times> 'c stepInvariantOperator" where
  "stepInvariant_Series nx ctx u =
     (let (err, u1) =
            (if u_seriesOnce u then (None, u)
             else (let ((series, e), c) = op_Series nx ctx (u_next u)
                   in (e, u\<lparr>u_seriesOnce := True, u_next := c, u_series := series\<rparr>)))
      in case err of
           Some e \<Rightarrow> (([], Some e), u1)
         | None \<Rightarrow> ((u_series u1, None), u1))"

text \<open>
  \<open>cacheInputVector\<close>: inside \<open>cacheVectorOnce.Do\<close>, one \<open>Next\<close> of the child; an empty
  batch or an empty first step vector leaves the cache empty, then a batch of any length
  other than one is an error, else the step vector is copied into a vector taken from
  the pool with timestamp 0.
\<close>

definition cacheInputVector ::
  "'c VectorOperator \<Rightarrow> Context \<Rightarrow> 'c stepInvariantOperator
     \<Rightarrow> error option \<times> 'c stepInvariantOperator" where
  "cacheInputVector nx ctx u =
     (if u_cacheVectorOnce u then (None, u)
      else
        (let ((inp, err), c) = op_Next nx ctx (u_next u);
             u1 = u\<lparr>u_cacheVectorOnce := True, u_next := c\<rparr>
         in case err of
              Some e \<Rightarrow> (Some e, u1)
            | None \<Rightarrow>
                (let vs = sliceOf inp in
                 if length vs = 0 \<or> length (Samples (vs ! 0)) = 0 then (None, u1)
                 else if length vs \<noteq> 1 then (Some UnexpectedNumberOfSamples, u1)
                 else (None,
                       u1\<lparr>u_cachedVector :=
                            (GetStepVector 0)
                              \<lparr>Samples := Samples (GetStepVector 0) @ Samples (vs ! 0),
                               SampleIDs := SampleIDs (GetStepVector 0) @ SampleIDs (vs ! 0)\<rparr>\<rparr>))))"

text \<open>
  The batch loop of \<open>Next\<close>,
  \<open>for i := 0; i < u.stepsBatch && u.currentStep <= u.maxt; i++\<close>, with the loop
  counter, the current step and the batch built so far as its state. It returns the
  batch and the current step it stopped at.
\<close>

function replicateSteps ::
  "StepVector \<Rightarrow> int \<Rightarrow> int \<Rightarrow> int \<Rightarrow> int \<Rightarrow> int \<Rightarrow> StepVector list \<Rightarrow> StepVector list \<times> int" where
  "replicateSteps cached stepsBatch maxt step i currentStep result =
     (if i < stepsBatch \<and> currentStep \<le> maxt
      then replicateSteps cached stepsBatch maxt step (i + 1) (wrap64 (currentStep + step))
             (result @ [(GetStepVector currentStep)
                          \<lparr>Samples := Samples (GetStepVector currentStep) @ Samples cached,
                           SampleIDs := SampleIDs (GetStepVector currentStep) @ SampleIDs cached\<rparr>])
      else (result, currentStep))"
  by pat_completeness auto
termination
  by (relation "measure (\<lambda>(cached, stepsBatch, maxt, step, i, currentStep, result). nat (stepsBatch - i))")
     auto

declare replicateSteps.simps [simp del]

definition stepInvariant_Next ::
  "'c VectorOperator \<Rightarrow> Context \<Rightarrow> 'c stepInvariantOperator
     \<Rightarrow> (batch \<times> error option) \<times> 'c stepInvariantOperator" where
  "stepInvariant_Next nx ctx u =
     (if u_currentStep u > u_maxt u then ((None, None), u)
      else case ctx of
             Some cerr \<Rightarrow> ((None, Some cerr), u)
           | None \<Rightarrow>
               if \<not> u_cacheResult u
               then (let (r, c) = op_Next nx ctx (u_next u) in (r, u\<lparr>u_next := c\<rparr>))
               else
                 (let (err, u1) = cacheInputVector nx ctx u
                  in case err of
                       Some e \<Rightarrow> ((None, Some e), u1)
                     | None \<Rightarrow>
                         if length (Samples (u_cachedVector u1)) = 0 then ((None, None), u1)
                         else
                           (let (result, cur) =
                                  replicateSteps (u_cachedVector u1) (u_stepsBatch u1) (u_maxt u1)
                                    (u_step u1) 0 (u_currentStep u1) GetVectorBatch
                            in ((Some result, None), u1\<lparr>u_currentStep := cur\<rparr>))))"

text \<open>
  The consumer's loop, as \<open>Exec\<close> runs it on the root operator: call \<open>Next\<close> until it
  fails or returns the nil batch, keeping the batches in order. The loop need not end,
  so it is given fuel: \<open>None\<close> means the fuel ran out before \<open>Next\<close> returned nil.
\<close>

fun collectBatches ::
  "nat \<Rightarrow> 'c VectorOperator \<Rightarrow> Context \<Rightarrow> 'c stepInvariantOperator
     \<Rightarrow> ((error + StepVector list list) \<times> 'c stepInvariantOperator) option" where
  "collectBatches 0 nx ctx u = None"
| "collectBatches (Suc fuel) nx ctx u =
     (case stepInvariant_Next nx ctx u of
        ((r, Some e), u1) \<Rightarrow> Some (Inl e, u1)
      | ((None, None), u1) \<Rightarrow> Some (Inr [], u1)
      | ((Some b, None), u1) \<Rightarrow>
          (case collectBatches fuel nx ctx u1 of
             None \<Rightarrow> None
           | Some (Inl e, u2) \<Rightarrow> Some (Inl e, u2)
           | Some (Inr bs, u2) \<Rightarrow> Some (Inr (b # bs), u2)))"

text \<open>
  The evaluation steps of a range are \<open>t\<^sub>k = cur + k * step\<close> for \<open>k = 0, 1, \<dots>\<close> as long
  as \<open>t\<^sub>k \<le> maxt\<close>; \<open>stepsLeft\<close> is their number. \<open>replica v t\<close> is the step vector with
  timestamp \<open>t\<close> that carries the samples and sample ids of \<open>v\<close>.
\<close>

definition stepsLeft :: "int \<Rightarrow> int \<Rightarrow> int \<Rightarrow> nat" where
  "stepsLeft cur maxt step = (if cur \<le> maxt then nat ((maxt - cur) div step) + 1 else 0)"

definition replica :: "StepVector \<Rightarrow> int \<Rightarrow> StepVector" where
  "replica v t = \<lparr>T = t, SampleIDs = SampleIDs v, Samples = Samples v\<rparr>"

section \<open>Selector pool\<close>

text \<open>
  \<open>labels.Matcher\<close> and \<open>storage.SelectHints\<close> belong to external packages; they are
  records of the fields the pool reads. The digest \<open>xxhash.Digest\<close> is the sequence of
  bytes written to it so far, and its \<open>Sum64\<close>, a function of those bytes, is a
  parameter.
\<close>

record Matcher =
  m_Type :: int
  m_Name :: string
  m_Value :: string

record SelectHints =
  h_Start :: int
  h_End :: int
  h_Step :: int
  h_Func :: string
  h_Grouping :: "string list"
  h_By :: bool
  h_Range :: int

type_synonym Digest = string

definition sep :: string where
  "sep = [CHR 0xFF]"

text \<open>Decimal rendering, as \<open>fmt.Sprintf("%d", val)\<close> and \<open>strconv.Itoa\<close> give it.\<close>

fun digitsOf :: "nat \<Rightarrow> string" where
  "digitsOf n =
     (if n < 10 then [char_of (48 + n)]
      else digitsOf (n div 10) @ [char_of (48 + n mod 10)])"

declare digitsOf.simps [simp del]

definition Itoa :: "int \<Rightarrow> string" where
  "Itoa i = (if i < 0 then CHR ''-'' # digitsOf (nat (- i)) else digitsOf (nat i))"

text \<open>\<open>strings.Join(elems, sep)\<close>.\<close>

fun Join :: "string list \<Rightarrow> string \<Rightarrow> string" where
  "Join [] s = []"
| "Join [x] s = x"
| "Join (x # y # rest) s = x @ s @ Join (y # rest) s"

definition writeInt64 :: "Digest \<Rightarrow> int \<Rightarrow> Digest" where
  "writeInt64 sb v = (sb @ Itoa v) @ sep"

definition writeString :: "Digest \<Rightarrow> string \<Rightarrow> Digest" where
  "writeString sb v = (sb @ v) @ sep"

definition writeBool :: "Digest \<Rightarrow> bool \<Rightarrow> Digest" where
  "writeBool sb v = (sb @ (if v then ''true'' else ''false'')) @ sep"

definition writeMatcher :: "Digest \<Rightarrow> Matcher \<Rightarrow> Digest" where
  "writeMatcher sb m =
     writeString (writeString (writeString sb (m_Name m)) (Itoa (m_Type m))) (m_Value m)"

text \<open>
  The writes of \<open>hashMatchers\<close> in order, before \<open>Sum64\<close>: every matcher, \<open>mint\<close>,
  \<open>maxt\<close>, \<open>hints.Step\<close>, \<open>hints.Func\<close>, \<open>hints.Grouping\<close> joined by \<open>;\<close> and \<open>hints.By\<close>.
\<close>

definition hashMatchers_written :: "Matcher list \<Rightarrow> int \<Rightarrow> int \<Rightarrow> SelectHints \<Rightarrow> Digest" where
  "hashMatchers_written matchers mint maxt hints =
     (let sb = foldl writeMatcher [] matchers;
          sb = writeInt64 sb mint;
          sb = writeInt64 sb maxt;
          sb = writeInt64 sb (h_Step hints);
          sb = writeString sb (h_Func hints);
          sb = writeString sb (Join (h_Grouping hints) '';'');
          sb = writeBool sb (h_By hints)
      in sb)"

definition hashMatchers ::
  "(Digest \<Rightarrow> 64 word) \<Rightarrow> Matcher list \<Rightarrow> int \<Rightarrow> int \<Rightarrow> SelectHints \<Rightarrow> 64 word" where
  "hashMatchers Sum64 matchers mint maxt hints =
     Sum64 (hashMatchers_written matchers mint maxt hints)"

text \<open>
  The pool maps keys to selectors. \<open>newShardedStorageSeriesSelector\<close> is defined in
  another file of the package and is a parameter, \<open>newSelector\<close>.
\<close>

record ('q, 's) SelectorPool =
  selectors :: "64 word \<rightharpoonup> 's"
  queryable :: 'q

definition NewSelectorPool :: "'q \<Rightarrow> ('q, 's) SelectorPool" where
  "NewSelectorPool q = \<lparr>selectors = Map.empty, queryable = q\<rparr>"

definition GetSelector ::
  "(Digest \<Rightarrow> 64 word) \<Rightarrow> ('q \<Rightarrow> int \<Rightarrow> int \<Rightarrow> int \<Rightarrow> Matcher list \<Rightarrow> SelectHints \<Rightarrow> 's)
     \<Rightarrow> ('q, 's) SelectorPool \<Rightarrow> int \<Rightarrow> int \<Rightarrow> int \<Rightarrow> Matcher list \<Rightarrow> SelectHints
     \<Rightarrow> 's \<times> ('q, 's) SelectorPool" where
  "GetSelector Sum64 newSelector p mint maxt step matchers hints =
     (let key = hashMatchers Sum64 matchers mint maxt hints
      in case selectors p key of
           Some sel \<Rightarrow> (sel, p)
         | None \<Rightarrow>
             (let sel = newSelector (queryable p) mint maxt step matchers hints
              in (sel, p\<lparr>selectors := (selectors p)(key \<mapsto> sel)\<rparr>)))"

text \<open>
  A sequence of \<open>GetSelector\<close> calls on the pool, each given by its arguments
  \<open>(mint, maxt, step, matchers, hints)\<close>; the pool after the last of them.
\<close>

type_synonym selectorCall = "int \<times> int \<times> int \<times> Matcher list \<times> SelectHints"

fun GetSelector_calls ::
  "(Digest \<Rightarrow> 64 word) \<Rightarrow> ('q \<Rightarrow> int \<Rightarrow> int \<Rightarrow> int \<Rightarrow> Matcher list \<Rightarrow> SelectHints \<Rightarrow> 's)
     \<Rightarrow> ('q, 's) SelectorPool \<Rightarrow> selectorCall list \<Rightarrow> ('q, 's) SelectorPool" where
  "GetSelector_calls Sum64 newSelector p [] = p"
| "GetSelector_calls Sum64 newSelector p ((mint, maxt, step, matchers, hints) # rest) =
     GetSelector_calls Sum64 newSelector
       (snd (GetSelector Sum64 newSelector p mint maxt step matchers hints)) rest"

section \<open>Series selector\<close>

text \<open>
  The storage layer is external. \<open>Querier\<close> opens a querier or fails; \<open>Select\<close> gives a
  series set, which is read to its end: the series it yields, in order, and its final
  \<open>Err()\<close>.
\<close>

record ('q, 'r, 'a) Storage =
  Querier :: "'q \<Rightarrow> Context \<Rightarrow> int \<Rightarrow> int \<Rightarrow> error + 'r"
  Select :: "'r \<Rightarrow> SelectHints \<Rightarrow> Matcher list \<Rightarrow> 'a list \<times> error option"

record 'a SignedSeries =
  Series :: 'a
  Signature :: nat

record ('q, 'a) seriesSelector =
  s_storage :: 'q
  s_mint :: int
  s_maxt :: int
  s_step :: int
  s_matchers :: "Matcher list"
  s_hints :: SelectHints
  s_once :: bool
  s_series :: "'a SignedSeries list"

definition newSeriesSelector ::
  "'q \<Rightarrow> int \<Rightarrow> int \<Rightarrow> int \<Rightarrow> Matcher list \<Rightarrow> SelectHints \<Rightarrow> ('q, 'a) seriesSelector" where
  "newSeriesSelector st mint maxt step matchers hints =
     \<lparr>s_storage = st, s_mint = mint, s_maxt = maxt, s_step = step, s_matchers = matchers,
      s_hints = hints, s_once = False, s_series = []\<rparr>"

text \<open>The loop of \<open>loadSeries\<close>: series number \<open>i\<close> of the set is signed with \<open>i\<close>.\<close>

fun signSeries :: "'a SignedSeries list \<Rightarrow> 'a list \<Rightarrow> int \<Rightarrow> 'a SignedSeries list" where
  "signSeries series [] i = series"
| "signSeries series (s # rest) i =
     signSeries (series @ [\<lparr>Series = s, Signature = nat i\<rparr>]) rest (wrap64 (i + 1))"

definition loadSeries ::
  "('q, 'r, 'a) Storage \<Rightarrow> Context \<Rightarrow> ('q, 'a) seriesSelector
     \<Rightarrow> error option \<times> ('q, 'a) seriesSelector" where
  "loadSeries stg ctx sel =
     (case Querier stg (s_storage sel) ctx (s_mint sel) (s_maxt sel) of
        Inl err \<Rightarrow> (Some err, sel)
      | Inr querier \<Rightarrow>
          (let (seriesSet, err) = Select stg querier (s_hints sel) (s_matchers sel)
           in (err, sel\<lparr>s_series := signSeries (s_series sel) seriesSet 0\<rparr>)))"

text \<open>
  \<open>seriesShard\<close>: Go's \<open>int\<close> arithmetic wraps, \<open>/\<close> truncates towards zero and panics on
  a zero divisor, and the slice expression \<open>series[start:end]\<close> panics unless
  \<open>0 \<le> start \<le> end\<close> (\<open>end\<close> has been capped at the length).
\<close>

definition seriesShard :: "'a list \<Rightarrow> int \<Rightarrow> int \<Rightarrow> error + 'a list" where
  "seriesShard series shard numShards =
     (if numShards = 0 then Inl (Panic ''integer divide by zero'')
      else
        (let len = int (length series);
             start = wrap64 (wrap64 (shard * len) sdiv numShards);
             end0 = wrap64 (wrap64 (wrap64 (shard + 1) * len) sdiv numShards);
             end1 = (if end0 > len then len else end0)
         in if 0 \<le> start \<and> start \<le> end1
            then Inr (take (nat (end1 - start)) (drop (nat start) series))
            else Inl (Panic ''slice bounds out of range'')))"

definition GetSeries ::
  "('q, 'r, 'a) Storage \<Rightarrow> Context \<Rightarrow> ('q, 'a) seriesSelector \<Rightarrow> int \<Rightarrow> int
     \<Rightarrow> ('a SignedSeries list \<times> error option) \<times> ('q, 'a) seriesSelector" where
  "GetSeries stg ctx sel shard numShards =
     (let (err, sel1) =
            (if s_once sel then (None, sel) else loadSeries stg ctx (sel\<lparr>s_once := True\<rparr>))
      in case err of
           Some e \<Rightarrow> (([], Some e), sel1)
         | None \<Rightarrow>
             (case seriesShard (s_series sel1) shard numShards of
                Inl e \<Rightarrow> (([], Some e), sel1)
              | Inr part \<Rightarrow> ((part, None), sel1)))"

section \<open>Example operators\<close>

text \<open>
  A child operator that answers every \<open>Series\<close> call with the same series and every
  \<open>Next\<close> call with the same batch, and a child whose \<open>Series\<close> fails.
\<close>

definition constChild :: "Labels list \<Rightarrow> batch \<Rightarrow> unit VectorOperator" where
  "constChild series b =
     \<lparr>op_Series = (\<lambda>ctx c. ((series, None), c)), op_Next = (\<lambda>ctx c. ((b, None), c))\<rparr>"

definition failingChild :: "error \<Rightarrow> unit VectorOperator" where
  "failingChild e =
     \<lparr>op_Series = (\<lambda>ctx c. (([], Some e), c)), op_Next = (\<lambda>ctx c. ((None, Some e), c))\<rparr>"

text \<open>A child that polls the context at entry, as the operators are meant to.\<close>

definition pollingChild :: "Labels list \<Rightarrow> batch \<Rightarrow> unit VectorOperator" where
  "pollingChild series b =
     \<lparr>op_Series = (\<lambda>ctx c. ((series, None), c)),
      op_Next = (\<lambda>ctx c. case ctx of Some e \<Rightarrow> ((None, Some e), c) | None \<Rightarrow> ((b, None), c))\<rparr>"

definition exampleAggregate :: "bool \<Rightarrow> string list \<Rightarrow> int \<Rightarrow> (unit, nat) aggregate" where
  "exampleAggregate by_flag lbls stepsBatch =
     \<lparr>a_next = (), a_by = by_flag, a_labels = lbls, a_aggregation = 0, a_once = False,
      a_tables = [], a_series = [], a_stepsBatch = stepsBatch, a_workers = [],
      a_workersStarted = False\<rparr>"

text \<open>
  Table methods for the examples: every accumulator call gives the sum of the samples,
  and a scalar table returns one sample, the sum of the step's samples, for group 0.
\<close>

definition exampleTableMethods :: tableMethods where
  "exampleTableMethods =
     \<lparr>applyAccumulator = (\<lambda>acc xs. sum_list xs),
      scalarTable_run = (\<lambda>inputCache outputCache vector.
         (\<lparr>T = T vector, SampleIDs = [0], Samples = [sum_list (Samples vector)]\<rparr>,
          ScalarTable inputCache outputCache))\<rparr>"

text \<open>A worker group of \<open>n\<close> workers whose calls do not fail.\<close>

definition exampleWorkers :: "nat \<Rightarrow> worker list" where
  "exampleWorkers n = replicate n \<lparr>Send = (\<lambda>v. None), GetOutput = (\<lambda>out. (out, None))\<rparr>"

text \<open>
  The vector-scalar operator of \<open>m > 2\<close>: the scalar on the right, the comparison
  without \<open>bool\<close>, which returns the vector side's value and keeps it when the
  comparison holds.
\<close>

definition exampleGreater :: operation where
  "exampleGreater operands idx =
     (if idx = 0 then fst operands else snd operands, fst operands > snd operands)"

definition exampleScalar :: "unit scalarOperator" where
  "exampleScalar =
     \<lparr>o_seriesOnce = False, o_series = [], o_scalar = 2, o_next = (),
      o_getOperands = getOperandsScalarRight, o_operandValIdx = 0,
      o_operation = exampleGreater, o_trace = []\<rparr>"

section \<open>Results: vectorised accumulators and table initialisation\<close>

text \<open>
  C2. Constructing the vectorised accumulator for kind \<open>stddev\<close> does not succeed: the
  constructor returns the \<open>unknown aggregation function stddev\<close> error wrapping
  \<open>ErrNotSupportedExpr\<close>, and so does the construction of the vectorised tables, while
  each of the seven other kinds \<open>stdvar\<close>, \<open>sum\<close>, \<open>min\<close>, \<open>max\<close>, \<open>avg\<close>, \<open>count\<close> and
  \<open>group\<close> yields its accumulator.
\<close>

theorem newVectorAccumulator_stddev_fails:
  "newVectorAccumulator [(0::nat) \<mapsto> ''stddev''] 0 =
     Inl (ErrNotSupportedExpr ''unknown aggregation function stddev'')
   \<and> newVectorizedTables [(0::nat) \<mapsto> ''stddev''] 10 0 =
     Inl (ErrNotSupportedExpr ''unknown aggregation function stddev'')
   \<and> newVectorAccumulator_str ''stdvar'' = Inr (Welford ''stdvar'')
   \<and> newVectorAccumulator_str ''sum'' = Inr FloatsSum
   \<and> newVectorAccumulator_str ''min'' = Inr FloatsMin
   \<and> newVectorAccumulator_str ''max'' = Inr FloatsMax
   \<and> newVectorAccumulator_str ''avg'' = Inr AvgOf
   \<and> newVectorAccumulator_str ''count'' = Inr CountOf
   \<and> newVectorAccumulator_str ''group'' = Inr GroupOf"
  by (simp add: newVectorAccumulator_def newVectorAccumulator_str_def newVectorizedTables_def
      eval_nat_numeral)

lemma initializeTables_scalar:
  assumes "a_by a" and "a_labels a = []"
    and "newVectorizedTables ItemTypeStr (a_stepsBatch a) (a_aggregation a) = Inl err"
    and "is_ErrNotSupportedExpr err"
    and "op_Series nx ctx (a_next a) = ((series, None), c)"
  shows "initializeTables ItemTypeStr hashMetric nx ctx a =
           (None, a\<lparr>a_next := c,
                    a_tables := newScalarTables (a_stepsBatch a)
                      (fst (groupSeries hashMetric (\<not> a_by a) (a_labels a) series Map.empty [] []))
                      (snd (groupSeries hashMetric (\<not> a_by a) (a_labels a) series Map.empty [] [])),
                    a_series := map Metric
                      (snd (groupSeries hashMetric (\<not> a_by a) (a_labels a) series Map.empty [] [])),
                    a_workersStarted := True\<rparr>)"
proof -
  obtain ic oc where g: "groupSeries hashMetric (\<not> a_by a) (a_labels a) series Map.empty [] [] = (ic, oc)"
    by (cases "groupSeries hashMetric (\<not> a_by a) (a_labels a) series Map.empty [] []") auto
  have fb: "initializeVectorizedTables ItemTypeStr hashMetric nx ctx a =
           initializeScalarTables hashMetric nx ctx a"
    using assms(3,4) by (simp add: initializeVectorizedTables_def)
  have "initializeScalarTables hashMetric nx ctx a =
          (Inr (newScalarTables (a_stepsBatch a) ic oc, map Metric oc), a\<lparr>a_next := c\<rparr>)"
    using assms(5) g by (simp add: initializeScalarTables_def)
  then show ?thesis
    using assms(1,2) fb g by (simp add: initializeTables_def)
qed

lemma workerTask_scalar:
  assumes "i < length tables" and "tables ! i = ScalarTable ic oc"
  shows "workerTask tm tables i v =
           Inr (fst (scalarTable_run tm ic oc v), tables[i := snd (scalarTable_run tm ic oc v)])"
  using assms by (simp add: workerTask_def split: prod.splits)

lemma sendAll_scalar:
  assumes "\<forall>j. i \<le> j \<and> j < i + length vs \<longrightarrow> j < length tables \<and> tables ! j = ScalarTable ic oc"
    and "i + length vs \<le> length ws"
    and "\<forall>w \<in> set ws. \<forall>v. Send w v = None"
  shows "\<exists>tables'. sendAll tm ws i vs tables outs =
           (None, outs @ map (\<lambda>v. fst (scalarTable_run tm ic oc v)) vs, tables')"
  using assms
proof (induction vs arbitrary: i tables outs)
  case Nil
  then show ?case by simp
next
  case (Cons v rest)
  have i: "i < length ws" "i < length tables" "tables ! i = ScalarTable ic oc"
    using Cons.prems(1,2) by auto
  have s: "Send (ws ! i) v = None"
    using Cons.prems(3) i(1) by simp
  let ?t1 = "tables[i := snd (scalarTable_run tm ic oc v)]"
  have wt: "workerTask tm tables i v = Inr (fst (scalarTable_run tm ic oc v), ?t1)"
    using i by (intro workerTask_scalar) auto
  have p1: "\<forall>j. Suc i \<le> j \<and> j < Suc i + length rest \<longrightarrow>
              j < length ?t1 \<and> ?t1 ! j = ScalarTable ic oc"
    using Cons.prems(1) by auto
  have p2: "Suc i + length rest \<le> length ws"
    using Cons.prems(2) by simp
  obtain tables' where
    "sendAll tm ws (Suc i) rest ?t1 (outs @ [fst (scalarTable_run tm ic oc v)]) =
       (None, (outs @ [fst (scalarTable_run tm ic oc v)])
              @ map (\<lambda>v. fst (scalarTable_run tm ic oc v)) rest, tables')"
    using Cons.IH [OF p1 p2 Cons.prems(3)] by blast
  then show ?case
    using i s wt by simp
qed

lemma collectAll_ok:
  assumes "i + length outs \<le> length ws"
    and "\<forall>w \<in> set ws. \<forall>out. GetOutput w out = (out, None)"
  shows "collectAll ws i outs res = Inr (res @ outs)"
  using assms
proof (induction outs arbitrary: i res)
  case Nil
  then show ?case by simp
next
  case (Cons out rest)
  have "i < length ws" using Cons.prems(1) by simp
  moreover from this have "GetOutput (ws ! i) out = (out, None)"
    using Cons.prems(2) by simp
  moreover have "collectAll ws (Suc i) rest (res @ [out]) = Inr ((res @ [out]) @ rest)"
    using Cons.prems by (intro Cons.IH) auto
  ultimately show ?case by simp
qed

lemma aggregate_Next_scalar_tables:
  assumes "a_once a"
    and "a_tables a = newScalarTables (a_stepsBatch a) ic oc"
    and "op_Next nx None (a_next a) = ((Some vs, None), c)"
    and "int (length vs) \<le> a_stepsBatch a" and "length vs \<le> length (a_workers a)"
    and "\<forall>w \<in> set (a_workers a). (\<forall>v. Send w v = None) \<and> (\<forall>out. GetOutput w out = (out, None))"
  shows "fst (aggregate_Next tm IT hm nx None a) =
           (Some (map (\<lambda>v. fst (scalarTable_run tm ic oc v)) vs), None)"
proof -
  let ?a1 = "a\<lparr>a_next := c\<rparr>"
  have o: "once_initializeTables IT hm nx None ?a1 = (None, ?a1)"
    using assms(1) by (simp add: once_initializeTables_def)
  have t: "\<forall>j. 0 \<le> j \<and> j < 0 + length vs \<longrightarrow>
             j < length (a_tables ?a1) \<and> a_tables ?a1 ! j = ScalarTable ic oc"
    using assms(2,4) by (auto simp: newScalarTables_def)
  have w1: "0 + length vs \<le> length (a_workers ?a1)" using assms(5) by simp
  have w2: "\<forall>w \<in> set (a_workers ?a1). \<forall>v. Send w v = None" using assms(6) by simp
  obtain tables' where
    sa: "sendAll tm (a_workers ?a1) 0 vs (a_tables ?a1) [] =
           (None, [] @ map (\<lambda>v. fst (scalarTable_run tm ic oc v)) vs, tables')"
    using sendAll_scalar [OF t w1 w2] by blast
  have ca: "collectAll (a_workers ?a1) 0 (map (\<lambda>v. fst (scalarTable_run tm ic oc v)) vs) GetVectorBatch
              = Inr (GetVectorBatch @ map (\<lambda>v. fst (scalarTable_run tm ic oc v)) vs)"
    using assms(5,6) by (intro collectAll_ok) auto
  show ?thesis
    using assms(3) o sa ca by (simp add: aggregate_Next_def GetVectorBatch_def)
qed

text \<open>
  C10. When the aggregation is \<open>by ()\<close> with no grouping labels and the construction of
  the vectorised tables fails with an error wrapping \<open>ErrNotSupportedExpr\<close>, the
  initialisation of the vectorised tables is that of the scalar tables; so when the
  child's \<open>Series\<close> succeeds, \<open>initializeTables\<close> succeeds and installs the scalar tables
  built from the grouping of the child's series, and the group labels as series. Such
  an aggregation then produces its results through the scalar tables: whether the
  tables are initialised by \<open>Series\<close> before the first \<open>Next\<close> or by the first \<open>Next\<close>
  itself, for a child batch no longer than \<open>stepsBatch\<close> and workers whose calls do
  not fail, \<open>Next\<close> returns, for every step vector of the child's batch and in order,
  the step vector that the scalar table with those caches computes for it.
\<close>

theorem initializeTables_falls_back_to_scalar_tables:
  assumes "a_by a" and "a_labels a = []"
    and "newVectorizedTables ItemTypeStr (a_stepsBatch a) (a_aggregation a) = Inl err"
    and "is_ErrNotSupportedExpr err"
  shows "initializeVectorizedTables ItemTypeStr hashMetric nx ctx a =
           initializeScalarTables hashMetric nx ctx a
       \<and> (\<forall>series c. op_Series nx ctx (a_next a) = ((series, None), c) \<longrightarrow>
            (\<exists>inputCache outputCache.
               groupSeries hashMetric (\<not> a_by a) (a_labels a) series Map.empty [] []
                 = (inputCache, outputCache)
             \<and> initializeTables ItemTypeStr hashMetric nx ctx a =
                 (None, a\<lparr>a_next := c,
                          a_tables := newScalarTables (a_stepsBatch a) inputCache outputCache,
                          a_series := map Metric outputCache,
                          a_workersStarted := True\<rparr>)))
       \<and> (\<not> a_once a
            \<and> op_Series nx ctx (a_next a) = ((series, None), c)
            \<and> op_Next nx None c = ((Some vs, None), c')
            \<and> int (length vs) \<le> a_stepsBatch a \<and> length vs \<le> length (a_workers a)
            \<and> (\<forall>w \<in> set (a_workers a).
                  (\<forall>v. Send w v = None) \<and> (\<forall>out. GetOutput w out = (out, None)))
            \<longrightarrow> fst (aggregate_Next tm ItemTypeStr hashMetric nx None
                        (snd (aggregate_Series ItemTypeStr hashMetric nx ctx a)))
                 = (Some (map (\<lambda>v. fst (scalarTable_run tm
                            (fst (groupSeries hashMetric (\<not> a_by a) (a_labels a) series Map.empty [] []))
                            (snd (groupSeries hashMetric (\<not> a_by a) (a_labels a) series Map.empty [] []))
                            v)) vs), None))
       \<and> (\<not> a_once a
            \<and> op_Next nx None (a_next a) = ((Some vs, None), c')
            \<and> op_Series nx None c' = ((series, None), c)
            \<and> int (length vs) \<le> a_stepsBatch a \<and> length vs \<le> length (a_workers a)
            \<and> (\<forall>w \<in> set (a_workers a).
                  (\<forall>v. Send w v = None) \<and> (\<forall>out. GetOutput w out = (out, None)))
            \<longrightarrow> fst (aggregate_Next tm ItemTypeStr hashMetric nx None a)
                 = (Some (map (\<lambda>v. fst (scalarTable_run tm
                            (fst (groupSeries hashMetric (\<not> a_by a) (a_labels a) series Map.empty [] []))
                            (snd (groupSeries hashMetric (\<not> a_by a) (a_labels a) series Map.empty [] []))
                            v)) vs), None))"
proof (intro conjI allI impI)
  show "initializeVectorizedTables ItemTypeStr hashMetric nx ctx a =
           initializeScalarTables hashMetric nx ctx a"
    using assms(3,4) by (simp add: initializeVectorizedTables_def)
next
  fix series c
  assume ch: "op_Series nx ctx (a_next a) = ((series, None), c)"
  obtain ic oc where g: "groupSeries hashMetric (\<not> a_by a) (a_labels a) series Map.empty [] [] = (ic, oc)"
    by (cases "groupSeries hashMetric (\<not> a_by a) (a_labels a) series Map.empty [] []") auto
  show "\<exists>inputCache outputCache.
               groupSeries hashMetric (\<not> a_by a) (a_labels a) series Map.empty [] []
                 = (inputCache, outputCache)
             \<and> initializeTables ItemTypeStr hashMetric nx ctx a =
                 (None, a\<lparr>a_next := c,
                          a_tables := newScalarTables (a_stepsBatch a) inputCache outputCache,
                          a_series := map Metric outputCache,
                          a_workersStarted := True\<rparr>)"
    using initializeTables_scalar [OF assms ch, of hashMetric] g by simp
next
  let ?G = "groupSeries hashMetric (\<not> a_by a) (a_labels a) series Map.empty [] []"
  assume h: "\<not> a_once a
            \<and> op_Series nx ctx (a_next a) = ((series, None), c)
            \<and> op_Next nx None c = ((Some vs, None), c')
            \<and> int (length vs) \<le> a_stepsBatch a \<and> length vs \<le> length (a_workers a)
            \<and> (\<forall>w \<in> set (a_workers a).
                  (\<forall>v. Send w v = None) \<and> (\<forall>out. GetOutput w out = (out, None)))"
  let ?a0 = "a\<lparr>a_once := True\<rparr>"
  let ?a1 = "?a0\<lparr>a_next := c,
                    a_tables := newScalarTables (a_stepsBatch ?a0) (fst ?G) (snd ?G),
                    a_series := map Metric (snd ?G),
                    a_workersStarted := True\<rparr>"
  have i0: "initializeTables ItemTypeStr hashMetric nx ctx ?a0 = (None, ?a1)"
    using initializeTables_scalar [of ?a0 ItemTypeStr err nx ctx series c hashMetric] assms h
    by simp
  have s: "snd (aggregate_Series ItemTypeStr hashMetric nx ctx a) = ?a1"
    using h i0 by (simp add: aggregate_Series_def once_initializeTables_def)
  have "fst (aggregate_Next tm ItemTypeStr hashMetric nx None ?a1) =
          (Some (map (\<lambda>v. fst (scalarTable_run tm (fst ?G) (snd ?G) v)) vs), None)"
    using h by (intro aggregate_Next_scalar_tables [where c = c']) simp_all
  with s show "fst (aggregate_Next tm ItemTypeStr hashMetric nx None
                        (snd (aggregate_Series ItemTypeStr hashMetric nx ctx a)))
                 = (Some (map (\<lambda>v. fst (scalarTable_run tm (fst ?G) (snd ?G) v)) vs), None)"
    by simp
next
  let ?G = "groupSeries hashMetric (\<not> a_by a) (a_labels a) series Map.empty [] []"
  assume h: "\<not> a_once a
            \<and> op_Next nx None (a_next a) = ((Some vs, None), c')
            \<and> op_Series nx None c' = ((series, None), c)
            \<and> int (length vs) \<le> a_stepsBatch a \<and> length vs \<le> length (a_workers a)
            \<and> (\<forall>w \<in> set (a_workers a).
                  (\<forall>v. Send w v = None) \<and> (\<forall>out. GetOutput w out = (out, None)))"
  let ?a0 = "a\<lparr>a_next := c', a_once := True\<rparr>"
  let ?a1 = "?a0\<lparr>a_next := c,
                    a_tables := newScalarTables (a_stepsBatch ?a0) (fst ?G) (snd ?G),
                    a_series := map Metric (snd ?G),
                    a_workersStarted := True\<rparr>"
  have i0: "initializeTables ItemTypeStr hashMetric nx None ?a0 = (None, ?a1)"
    using initializeTables_scalar [of ?a0 ItemTypeStr err nx None series c hashMetric] assms h
    by simp
  have o: "once_initializeTables ItemTypeStr hashMetric nx None (a\<lparr>a_next := c'\<rparr>) = (None, ?a1)"
    using h i0 by (simp add: once_initializeTables_def)
  have t: "\<forall>j. 0 \<le> j \<and> j < 0 + length vs \<longrightarrow>
             j < length (a_tables ?a1) \<and> a_tables ?a1 ! j = ScalarTable (fst ?G) (snd ?G)"
    using h by (auto simp: newScalarTables_def)
  have w1: "0 + length vs \<le> length (a_workers ?a1)" using h by simp
  have w2: "\<forall>w \<in> set (a_workers ?a1). \<forall>v. Send w v = None" using h by simp
  obtain tables' where
    sa: "sendAll tm (a_workers ?a1) 0 vs (a_tables ?a1) [] =
           (None, [] @ map (\<lambda>v. fst (scalarTable_run tm (fst ?G) (snd ?G) v)) vs, tables')"
    using sendAll_scalar [OF t w1 w2] by blast
  have ca: "collectAll (a_workers ?a1) 0 (map (\<lambda>v. fst (scalarTable_run tm (fst ?G) (snd ?G) v)) vs)
              GetVectorBatch
              = Inr (GetVectorBatch @ map (\<lambda>v. fst (scalarTable_run tm (fst ?G) (snd ?G) v)) vs)"
    using h by (intro collectAll_ok) auto
  have ch: "op_Next nx None (a_next a) = ((Some vs, None), c')" using h by simp
  show "fst (aggregate_Next tm ItemTypeStr hashMetric nx None a)
          = (Some (map (\<lambda>v. fst (scalarTable_run tm (fst ?G) (snd ?G) v)) vs), None)"
    using ch o sa ca by (simp add: aggregate_Next_def GetVectorBatch_def)
qed

theorem initializeTables_falls_back_to_scalar_tables_witness:
  "initializeTables [(0::nat) \<mapsto> ''stddev''] (\<lambda>l without lbs. (0, []))
     (constChild [[(''__name__'', ''m''), (''pod'', ''a'')], [(''__name__'', ''m''), (''pod'', ''b'')]] None)
     None (exampleAggregate True [] 2) =
   (None, (exampleAggregate True [] 2)
            \<lparr>a_next := (),
             a_tables := [ScalarTable [0, 0] [\<lparr>Metric = [], ID = 0\<rparr>],
                          ScalarTable [0, 0] [\<lparr>Metric = [], ID = 0\<rparr>]],
             a_series := [[]],
             a_workersStarted := True\<rparr>)
   \<and> fst (aggregate_Next exampleTableMethods [(0::nat) \<mapsto> ''stddev''] (\<lambda>l without lbs. (0, []))
            (constChild [[(''__name__'', ''m''), (''pod'', ''a'')], [(''__name__'', ''m''), (''pod'', ''b'')]]
               (Some [\<lparr>T = 0, SampleIDs = [0, 1], Samples = [1, 2]\<rparr>,
                      \<lparr>T = 30000, SampleIDs = [0, 1], Samples = [3, 4]\<rparr>]))
            None ((exampleAggregate True [] 2)\<lparr>a_workers := exampleWorkers 2\<rparr>))
     = (Some [\<lparr>T = 0, SampleIDs = [0], Samples = [3]\<rparr>,
              \<lparr>T = 30000, SampleIDs = [0], Samples = [7]\<rparr>], None)"
proof -
  let ?IT = "[(0::nat) \<mapsto> ''stddev'']"
  let ?hm = "\<lambda>(l::Labels) (without::bool) (lbs::string list). (0::nat, []::Labels)"
  let ?a = "exampleAggregate True [] 2"
  let ?b = "(exampleAggregate True [] 2)\<lparr>a_workers := exampleWorkers 2\<rparr>"
  let ?ss = "[[(''__name__'', ''m''), (''pod'', ''a'')], [(''__name__'', ''m''), (''pod'', ''b'')]]"
  let ?vs = "[\<lparr>T = 0, SampleIDs = [0, 1], Samples = [1, 2]\<rparr>,
              \<lparr>T = 30000, SampleIDs = [0, 1], Samples = [3, 4]\<rparr>]"
  have h1: "a_by ?a" and h2: "a_labels ?a = []"
    by (simp_all add: exampleAggregate_def)
  have h3: "newVectorizedTables ?IT (a_stepsBatch ?a) (a_aggregation ?a) =
              Inl (ErrNotSupportedExpr ''unknown aggregation function stddev'')"
    by (simp add: exampleAggregate_def newVectorizedTables_def newVectorAccumulator_def
        newVectorAccumulator_str_def eval_nat_numeral)
  have h4: "is_ErrNotSupportedExpr (ErrNotSupportedExpr ''unknown aggregation function stddev'')"
    by simp
  have ch: "op_Series (constChild ?ss None) None (a_next ?a) = ((?ss, None), ())"
    by (simp add: constChild_def)
  have g: "groupSeries ?hm (\<not> a_by ?a) (a_labels ?a) ?ss Map.empty [] [] =
             ([0, 0], [\<lparr>Metric = [], ID = 0\<rparr>])"
    by (simp add: exampleAggregate_def)
  have first: "initializeTables ?IT ?hm (constChild ?ss None) None ?a =
      (None, ?a\<lparr>a_next := (),
             a_tables := [ScalarTable [0, 0] [\<lparr>Metric = [], ID = 0\<rparr>],
                          ScalarTable [0, 0] [\<lparr>Metric = [], ID = 0\<rparr>]],
             a_series := [[]],
             a_workersStarted := True\<rparr>)"
    using initializeTables_falls_back_to_scalar_tables
            [OF h1 h2 h3 h4, of ?hm "constChild ?ss None" None] ch g
    by (auto simp: newScalarTables_def exampleAggregate_def eval_nat_numeral)
  have b1: "a_by ?b" and b2: "a_labels ?b = []"
    by (simp_all add: exampleAggregate_def)
  have b3: "newVectorizedTables ?IT (a_stepsBatch ?b) (a_aggregation ?b) =
              Inl (ErrNotSupportedExpr ''unknown aggregation function stddev'')"
    by (simp add: exampleAggregate_def newVectorizedTables_def newVectorAccumulator_def
        newVectorAccumulator_str_def eval_nat_numeral)
  have n0: "\<not> a_once ?b" by (simp add: exampleAggregate_def)
  have n1: "op_Next (constChild ?ss (Some ?vs)) None (a_next ?b) = ((Some ?vs, None), ())"
    and n2: "op_Series (constChild ?ss (Some ?vs)) None () = ((?ss, None), ())"
    by (simp_all add: constChild_def)
  have n3: "int (length ?vs) \<le> a_stepsBatch ?b" and n4: "length ?vs \<le> length (a_workers ?b)"
    by (simp_all add: exampleAggregate_def exampleWorkers_def)
  have n5: "\<forall>w \<in> set (a_workers ?b). (\<forall>v. Send w v = None) \<and> (\<forall>out. GetOutput w out = (out, None))"
    by (simp add: exampleWorkers_def)
  have g': "groupSeries ?hm (\<not> a_by ?b) (a_labels ?b) ?ss Map.empty [] [] =
             ([0, 0], [\<lparr>Metric = [], ID = 0\<rparr>])"
    by (simp add: exampleAggregate_def)
  have m: "map (\<lambda>v. fst (scalarTable_run exampleTableMethods [0, 0] [\<lparr>Metric = [], ID = 0\<rparr>] v)) ?vs
           = [\<lparr>T = 0, SampleIDs = [0], Samples = [3]\<rparr>, \<lparr>T = 30000, SampleIDs = [0], Samples = [7]\<rparr>]"
    by (simp add: exampleTableMethods_def)
  have second: "fst (aggregate_Next exampleTableMethods ?IT ?hm (constChild ?ss (Some ?vs)) None ?b)
     = (Some [\<lparr>T = 0, SampleIDs = [0], Samples = [3]\<rparr>,
              \<lparr>T = 30000, SampleIDs = [0], Samples = [7]\<rparr>], None)"
    using initializeTables_falls_back_to_scalar_tables
            [OF b1 b2 b3 h4, of ?hm "constChild ?ss (Some ?vs)" None ?ss "()" ?vs "()"
               exampleTableMethods]
          n0 n1 n2 n3 n4 n5
    unfolding g' fst_conv snd_conv m by blast
  from first second show ?thesis by blast
qed

section \<open>Results: batches and the terminal marker\<close>

lemma scalar_samples_eq:
  assumes "\<forall>i \<in> set is. snd (f (g vector i s) idx) \<longrightarrow> i < length (SampleIDs vector)"
  shows "scalar_samples g f idx s vector is step =
           Inr (step\<lparr>Samples := Samples step
                          @ map (\<lambda>i. fst (f (g vector i s) idx))
                              (filter (\<lambda>i. snd (f (g vector i s) idx)) is),
                      SampleIDs := SampleIDs step
                          @ map (\<lambda>i. SampleIDs vector ! i)
                              (filter (\<lambda>i. snd (f (g vector i s) idx)) is)\<rparr>)"
  using assms
proof (induction "is" arbitrary: step)
  case Nil
  then show ?case by simp
next
  case (Cons i rest)
  from Cons.prems have r: "\<forall>i \<in> set rest. snd (f (g vector i s) idx) \<longrightarrow> i < length (SampleIDs vector)"
    by simp
  obtain v keep where fk: "f (g vector i s) idx = (v, keep)"
    by (cases "f (g vector i s) idx") auto
  show ?case
  proof (cases keep)
    case False
    then show ?thesis
      using Cons.IH [OF r, of step] fk by simp
  next
    case True
    with Cons.prems fk have "i < length (SampleIDs vector)" by simp
    with True show ?thesis
      using Cons.IH [OF r, of "step\<lparr>Samples := Samples step @ [v],
                                    SampleIDs := SampleIDs step @ [SampleIDs vector ! i]\<rparr>"] fk
      by simp
  qed
qed

lemma scalar_samples_keptStep:
  assumes "\<forall>i < length (Samples vector). snd (f (g vector i s) idx) \<longrightarrow> i < length (SampleIDs vector)"
  shows "scalar_samples g f idx s vector [0 ..< length (Samples vector)] (GetStepVector (T vector))
           = Inr (keptStep g f idx s vector)"
proof -
  have "\<forall>i \<in> set [0 ..< length (Samples vector)].
          snd (f (g vector i s) idx) \<longrightarrow> i < length (SampleIDs vector)"
    using assms by simp
  then show ?thesis
    using scalar_samples_eq [where ?is = "[0 ..< length (Samples vector)]" and f = f and g = g
        and vector = vector and s = s and idx = idx and step = "GetStepVector (T vector)"]
    by (simp add: keptStep_def GetStepVector_def Let_def)
qed

lemma scalar_vectors_eq:
  assumes "\<forall>vector \<in> set vs. \<forall>i < length (Samples vector).
             snd (f (g vector i s) idx) \<longrightarrow> i < length (SampleIDs vector)"
  shows "\<exists>tr'. scalar_vectors g f idx s vs out tr =
                 Inr (out @ filter (\<lambda>st. Samples st \<noteq> []) (map (keptStep g f idx s) vs), tr')"
  using assms
proof (induction vs arbitrary: out tr)
  case Nil
  then show ?case by simp
next
  case (Cons vector rest)
  have k: "scalar_samples g f idx s vector [0 ..< length (Samples vector)] (GetStepVector (T vector))
             = Inr (keptStep g f idx s vector)"
    using Cons.prems
      scalar_samples_keptStep [where f = f and g = g and vector = vector and s = s and idx = idx]
    by simp
  have r: "\<forall>vector \<in> set rest. \<forall>i < length (Samples vector).
             snd (f (g vector i s) idx) \<longrightarrow> i < length (SampleIDs vector)"
    using Cons.prems by simp
  show ?case
  proof (cases "Samples (keptStep g f idx s vector) = []")
    case True
    obtain tr' where "scalar_vectors g f idx s rest out (tr @ [CallGetStepVector OwnPool (T vector)]) =
        Inr (out @ filter (\<lambda>st. Samples st \<noteq> []) (map (keptStep g f idx s) rest), tr')"
      using Cons.IH [OF r] by blast
    with True k show ?thesis by (simp add: Let_def)
  next
    case False
    obtain tr' where "scalar_vectors g f idx s rest (out @ [keptStep g f idx s vector])
        ((tr @ [CallGetStepVector OwnPool (T vector)]) @ [CallPutStepVector NextPool vector]) =
        Inr ((out @ [keptStep g f idx s vector])
             @ filter (\<lambda>st. Samples st \<noteq> []) (map (keptStep g f idx s) rest), tr')"
      using Cons.IH [OF r] by blast
    with False k show ?thesis by (simp add: Let_def)
  qed
qed

lemma once_scalar_loadSeries_fields:
  "once_scalar_loadSeries nx ctx o1 = (e, o2) \<Longrightarrow>
     o_getOperands o2 = o_getOperands o1 \<and> o_operation o2 = o_operation o1
     \<and> o_operandValIdx o2 = o_operandValIdx o1 \<and> o_scalar o2 = o_scalar o1
     \<and> o_trace o2 = o_trace o1"
  by (auto simp: once_scalar_loadSeries_def scalar_loadSeries_def Let_def
      split: if_splits prod.splits option.splits)

lemma scalar_Next_exact:
  assumes ch: "op_Next nx ctx (o_next o1) = ((Some vs, None), c)"
    and ld: "fst (once_scalar_loadSeries nx ctx (o1\<lparr>o_next := c\<rparr>)) = None"
    and ids: "\<forall>vector \<in> set vs. \<forall>i < length (Samples vector).
                snd (o_operation o1 (o_getOperands o1 vector i (o_scalar o1)) (o_operandValIdx o1))
                \<longrightarrow> i < length (SampleIDs vector)"
  shows "fst (scalar_Next nx ctx o1) =
           (Some (filter (\<lambda>st. Samples st \<noteq> [])
                    (map (keptStep (o_getOperands o1) (o_operation o1) (o_operandValIdx o1)
                            (o_scalar o1)) vs)), None)"
proof -
  obtain o3 where l: "once_scalar_loadSeries nx ctx (o1\<lparr>o_next := c\<rparr>) = (None, o3)"
    using ld by (cases "once_scalar_loadSeries nx ctx (o1\<lparr>o_next := c\<rparr>)") auto
  from once_scalar_loadSeries_fields [OF l]
  have f: "o_getOperands o3 = o_getOperands o1" "o_operation o3 = o_operation o1"
    "o_operandValIdx o3 = o_operandValIdx o1" "o_scalar o3 = o_scalar o1"
    by simp_all
  obtain tr' where
    "scalar_vectors (o_getOperands o1) (o_operation o1) (o_operandValIdx o1) (o_scalar o1) vs
       GetVectorBatch (o_trace o3 @ [CallGetVectorBatch OwnPool]) =
     Inr (GetVectorBatch @ filter (\<lambda>st. Samples st \<noteq> [])
            (map (keptStep (o_getOperands o1) (o_operation o1) (o_operandValIdx o1) (o_scalar o1)) vs),
          tr')"
    using ids scalar_vectors_eq [where vs = vs and f = "o_operation o1" and g = "o_getOperands o1"
        and s = "o_scalar o1" and idx = "o_operandValIdx o1" and out = GetVectorBatch
        and tr = "o_trace o3 @ [CallGetVectorBatch OwnPool]"]
    by blast
  then show ?thesis
    using ch l f by (simp add: scalar_Next_def GetVectorBatch_def)
qed

lemma scalar_Next_all_filtered:
  assumes ch: "op_Next nx ctx (o_next o1) = ((Some vs, None), c)"
    and ld: "fst (once_scalar_loadSeries nx ctx (o1\<lparr>o_next := c\<rparr>)) = None"
    and nk: "\<forall>vector \<in> set vs. \<forall>i < length (Samples vector).
               \<not> snd (o_operation o1 (o_getOperands o1 vector i (o_scalar o1)) (o_operandValIdx o1))"
  shows "fst (scalar_Next nx ctx o1) = (Some [], None)"
proof -
  have ids: "\<forall>vector \<in> set vs. \<forall>i < length (Samples vector).
                snd (o_operation o1 (o_getOperands o1 vector i (o_scalar o1)) (o_operandValIdx o1))
                \<longrightarrow> i < length (SampleIDs vector)"
    using nk by blast
  have "filter (\<lambda>i. snd (o_operation o1 (o_getOperands o1 vector i (o_scalar o1)) (o_operandValIdx o1)))
          [0 ..< length (Samples vector)] = []" if "vector \<in> set vs" for vector
    using nk that by (auto simp: filter_empty_conv)
  then have "\<forall>vector \<in> set vs.
          Samples (keptStep (o_getOperands o1) (o_operation o1) (o_operandValIdx o1) (o_scalar o1) vector) = []"
    by (simp add: keptStep_def)
  then have "filter (\<lambda>st. Samples st \<noteq> [])
               (map (keptStep (o_getOperands o1) (o_operation o1) (o_operandValIdx o1) (o_scalar o1)) vs) = []"
    by (auto simp: filter_empty_conv)
  with scalar_Next_exact [OF ch ld ids] show ?thesis by simp
qed

lemma scalar_samples_length:
  "scalar_samples g f idx s vector is step = Inr step' \<Longrightarrow>
     length (Samples step) \<le> length (Samples step')"
proof (induction "is" arbitrary: step)
  case Nil
  then show ?case by simp
next
  case (Cons i rest)
  then show ?case
    by (fastforce simp: Let_def split: prod.splits if_splits)
qed

lemma scalar_vectors_out:
  "scalar_vectors g f idx s vs out tr = Inr (out', tr') \<Longrightarrow>
     length out' \<le> length out + length vs
     \<and> (\<forall>v \<in> set out'. v \<in> set out \<or> Samples v \<noteq> [])"
proof (induction vs arbitrary: out tr)
  case Nil
  then show ?case by simp
next
  case (Cons vector rest)
  show ?case
  proof (cases "scalar_samples g f idx s vector [0 ..< length (Samples vector)] (GetStepVector (T vector))")
    case (Inl e)
    with Cons.prems show ?thesis by (simp add: Let_def)
  next
    case (Inr step)
    show ?thesis
    proof (cases "length (Samples step) = 0")
      case True
      with Inr Cons.prems
      have "scalar_vectors g f idx s rest out (tr @ [CallGetStepVector OwnPool (T vector)]) = Inr (out', tr')"
        by (simp add: Let_def)
      from Cons.IH [OF this] show ?thesis by auto
    next
      case False
      with Inr Cons.prems
      have "scalar_vectors g f idx s rest (out @ [step])
              ((tr @ [CallGetStepVector OwnPool (T vector)]) @ [CallPutStepVector NextPool vector])
            = Inr (out', tr')"
        by (simp add: Let_def)
      from Cons.IH [OF this] False show ?thesis by auto
    qed
  qed
qed

lemma sendAll_length:
  "sendAll tm ws i vs tables outs = (None, outs', tables') \<Longrightarrow>
     length outs' = length outs + length vs"
  by (induction vs arbitrary: i tables outs)
     (auto split: if_splits prod.splits option.splits sum.splits)

lemma collectAll_length:
  "collectAll ws i outs res = Inr r \<Longrightarrow> length r = length res + length outs"
  by (induction outs arbitrary: i res) (auto split: if_splits prod.splits option.splits)

lemma scalar_Next_nil_iff:
  "fst (scalar_Next nx ctx o1) = (None, None) \<longleftrightarrow> fst (op_Next nx ctx (o_next o1)) = (None, None)"
  by (auto simp: scalar_Next_def Let_def split: prod.splits option.splits sum.splits)

lemma scalar_Next_batch:
  assumes "fst (scalar_Next nx ctx o1) = (Some out, None)"
  shows "\<exists>vs. fst (op_Next nx ctx (o_next o1)) = (Some vs, None)
            \<and> length out \<le> length vs \<and> (\<forall>v \<in> set out. Samples v \<noteq> [])"
proof -
  obtain inp err c where ch: "op_Next nx ctx (o_next o1) = ((inp, err), c)"
    by (metis prod.exhaust)
  from assms ch have e: "err = None"
    by (auto simp: scalar_Next_def Let_def split: option.splits prod.splits sum.splits)
  from assms ch e obtain vs where i: "inp = Some vs"
    by (cases inp) (auto simp: scalar_Next_def Let_def split: option.splits prod.splits sum.splits)
  obtain lerr o3 where l: "once_scalar_loadSeries nx ctx (o1\<lparr>o_next := c\<rparr>) = (lerr, o3)"
    by (metis prod.exhaust)
  from assms ch e i l have le: "lerr = None"
    by (auto simp: scalar_Next_def Let_def split: option.splits prod.splits sum.splits)
  from assms ch e i l le obtain tr where
    "scalar_vectors (o_getOperands o3) (o_operation o3) (o_operandValIdx o3) (o_scalar o3) vs
       GetVectorBatch (o_trace o3 @ [CallGetVectorBatch OwnPool]) = Inr (out, tr)"
    by (auto simp: scalar_Next_def Let_def split: option.splits prod.splits sum.splits)
  from scalar_vectors_out [OF this] have "length out \<le> length vs \<and> (\<forall>v \<in> set out. Samples v \<noteq> [])"
    by (simp add: GetVectorBatch_def)
  with ch e i show ?thesis by simp
qed

lemma aggregate_Next_nil_iff:
  "fst (aggregate_Next tm IT hm nx ctx a) = (None, None) \<longleftrightarrow>
     ctx = None \<and> fst (op_Next nx ctx (a_next a)) = (None, None)"
  by (auto simp: aggregate_Next_def Let_def split: prod.splits option.splits sum.splits)

lemma aggregate_Next_batch:
  assumes "fst (aggregate_Next tm IT hm nx ctx a) = (Some out, None)"
  shows "\<exists>vs. fst (op_Next nx ctx (a_next a)) = (Some vs, None) \<and> length out = length vs"
proof -
  from assms have cx: "ctx = None"
    by (cases ctx) (auto simp: aggregate_Next_def)
  obtain inp err c where ch: "op_Next nx ctx (a_next a) = ((inp, err), c)"
    by (metis prod.exhaust)
  from assms ch cx have e: "err = None"
    by (auto simp: aggregate_Next_def Let_def split: option.splits prod.splits sum.splits)
  from assms ch e cx obtain vs where i: "inp = Some vs"
    by (cases inp) (auto simp: aggregate_Next_def Let_def split: option.splits prod.splits sum.splits)
  obtain ierr a2 where l: "once_initializeTables IT hm nx ctx (a\<lparr>a_next := c\<rparr>) = (ierr, a2)"
    by (metis prod.exhaust)
  obtain serr outs tables where sa: "sendAll tm (a_workers a2) 0 vs (a_tables a2) [] = (serr, outs, tables)"
    by (metis prod.exhaust)
  from assms ch e i l cx sa have se: "serr = None"
    by (auto simp: aggregate_Next_def Let_def split: option.splits prod.splits sum.splits)
  from assms ch e i l cx sa se have
    "collectAll (a_workers a2) 0 outs GetVectorBatch = Inr out"
    by (auto simp: aggregate_Next_def Let_def split: option.splits prod.splits sum.splits)
  from collectAll_length [OF this] have "length out = length outs"
    by (simp add: GetVectorBatch_def)
  moreover from sendAll_length [of tm "a_workers a2" 0 vs "a_tables a2" "[]" outs tables] sa se
  have "length outs = length vs" by simp
  ultimately show ?thesis using ch e i by simp
qed

text \<open>
  The child below answers every \<open>Next\<close> with a batch of one step vector holding the
  sample 1; the operator of \<open>m > 2\<close> keeps no sample of it and returns the empty,
  non-nil batch.
\<close>

theorem scalar_Next_empty_batch_counterexample:
  "fst (op_Next (constChild [] (Some [\<lparr>T = 0, SampleIDs = [0], Samples = [1]\<rparr>])) None ()) =
     (Some [\<lparr>T = 0, SampleIDs = [0], Samples = [1]\<rparr>], None)
   \<and> fst (scalar_Next (constChild [] (Some [\<lparr>T = 0, SampleIDs = [0], Samples = [1]\<rparr>])) None
            exampleScalar) = (Some [], None)"
  by (simp add: scalar_Next_def constChild_def exampleScalar_def once_scalar_loadSeries_def
      scalar_loadSeries_def GetVectorBatch_def GetStepVector_def getOperandsScalarRight_def
      exampleGreater_def)

text \<open>
  C1 (as amended). The terminal marker is the nil batch. The vector-scalar operator's
  \<open>Next\<close> returns the nil batch without error exactly when its child's \<open>Next\<close> does, and
  the aggregation's \<open>Next\<close> exactly when the context is live and its child's \<open>Next\<close>
  does. When either returns a non-nil batch, its child returned a non-nil batch: the
  aggregation's batch has the length of the child's, the vector-scalar operator's batch
  is no longer than the child's and holds only step vectors with at least one sample.
  When the child returns a batch, the series load (if still due) succeeds and every kept
  sample has an id, the vector-scalar operator returns, for the steps of the child's
  batch that keep at least one sample and in their order, the step vector of the kept
  samples; in particular it returns the empty non-nil batch when every sample of every
  step is filtered out.
\<close>

theorem Next_nil_batch_is_terminal_marker:
  "(fst (scalar_Next nx ctx o1) = (None, None) \<longleftrightarrow>
      fst (op_Next nx ctx (o_next o1)) = (None, None))
   \<and> (fst (scalar_Next nx ctx o1) = (Some out, None) \<longrightarrow>
        (\<exists>vs. fst (op_Next nx ctx (o_next o1)) = (Some vs, None)
              \<and> length out \<le> length vs \<and> (\<forall>v \<in> set out. Samples v \<noteq> [])))
   \<and> (fst (aggregate_Next tm IT hm ny ctx a) = (None, None) \<longleftrightarrow>
        ctx = None \<and> fst (op_Next ny ctx (a_next a)) = (None, None))
   \<and> (fst (aggregate_Next tm IT hm ny ctx a) = (Some res, None) \<longrightarrow>
        (\<exists>vs. fst (op_Next ny ctx (a_next a)) = (Some vs, None) \<and> length res = length vs))
   \<and> (op_Next nx ctx (o_next o1) = ((Some ws, None), c)
        \<and> fst (once_scalar_loadSeries nx ctx (o1\<lparr>o_next := c\<rparr>)) = None
        \<and> (\<forall>vector \<in> set ws. \<forall>i < length (Samples vector).
              snd (o_operation o1 (o_getOperands o1 vector i (o_scalar o1)) (o_operandValIdx o1))
              \<longrightarrow> i < length (SampleIDs vector))
        \<longrightarrow> fst (scalar_Next nx ctx o1) =
              (Some (filter (\<lambda>st. Samples st \<noteq> [])
                       (map (keptStep (o_getOperands o1) (o_operation o1) (o_operandValIdx o1)
                               (o_scalar o1)) ws)), None))
   \<and> (op_Next nx ctx (o_next o1) = ((Some ws, None), c)
        \<and> fst (once_scalar_loadSeries nx ctx (o1\<lparr>o_next := c\<rparr>)) = None
        \<and> (\<forall>vector \<in> set ws. \<forall>i < length (Samples vector).
              \<not> snd (o_operation o1 (o_getOperands o1 vector i (o_scalar o1)) (o_operandValIdx o1)))
        \<longrightarrow> fst (scalar_Next nx ctx o1) = (Some [], None))"
  using scalar_Next_nil_iff [of nx ctx o1] scalar_Next_batch [of nx ctx o1 out]
    aggregate_Next_nil_iff [of tm IT hm ny ctx a] aggregate_Next_batch [of tm IT hm ny ctx a res]
    scalar_Next_exact [of nx ctx o1 ws c] scalar_Next_all_filtered [of nx ctx o1 ws c]
  by blast

theorem Next_nil_batch_is_terminal_marker_witness:
  "fst (scalar_Next (constChild [] (Some [\<lparr>T = 0, SampleIDs = [7, 8], Samples = [5, 1]\<rparr>])) None
          exampleScalar) = (Some [\<lparr>T = 0, SampleIDs = [7], Samples = [5]\<rparr>], None)
   \<and> fst (scalar_Next (constChild [] (Some [\<lparr>T = 0, SampleIDs = [7, 8], Samples = [2, 1]\<rparr>])) None
          exampleScalar) = (Some [], None)
   \<and> fst (aggregate_Next exampleTableMethods [(0::nat) \<mapsto> ''sum''] (\<lambda>l without lbs. (0, []))
            (constChild [] (Some [\<lparr>T = 0, SampleIDs = [7, 8], Samples = [5, 1]\<rparr>])) None
            ((exampleAggregate True [] 1)\<lparr>a_workers := exampleWorkers 1\<rparr>))
       = (Some [\<lparr>T = 0, SampleIDs = [0], Samples = [6]\<rparr>], None)
   \<and> (\<exists>vs. fst (op_Next (constChild [] (Some [\<lparr>T = 0, SampleIDs = [7, 8], Samples = [5, 1]\<rparr>])) None
                    (a_next ((exampleAggregate True [] 1)\<lparr>a_workers := exampleWorkers 1\<rparr>)))
               = (Some vs, None)
             \<and> length [\<lparr>T = 0, SampleIDs = [0], Samples = [6::float64]\<rparr>] = length vs)"
proof -
  let ?v = "\<lparr>T = 0, SampleIDs = [7, 8], Samples = [5, 1]\<rparr>"
  let ?w = "\<lparr>T = 0, SampleIDs = [7, 8], Samples = [2, 1]\<rparr>"
  let ?ch = "constChild [] (Some [?v])"
  let ?ch' = "constChild [] (Some [?w])"
  let ?a = "(exampleAggregate True [] 1)\<lparr>a_workers := exampleWorkers 1\<rparr>"
  let ?IT = "[(0::nat) \<mapsto> ''sum'']"
  let ?hm = "\<lambda>(l::Labels) (without::bool) (lbs::string list). (0::nat, []::Labels)"
  have c1: "op_Next ?ch None (o_next exampleScalar) = ((Some [?v], None), ())"
    and c2: "op_Next ?ch' None (o_next exampleScalar) = ((Some [?w], None), ())"
    by (simp_all add: constChild_def)
  have l1: "fst (once_scalar_loadSeries ?ch None (exampleScalar\<lparr>o_next := ()\<rparr>)) = None"
    and l2: "fst (once_scalar_loadSeries ?ch' None (exampleScalar\<lparr>o_next := ()\<rparr>)) = None"
    by (simp_all add: once_scalar_loadSeries_def scalar_loadSeries_def constChild_def
        exampleScalar_def)
  have i1: "\<forall>vector \<in> set [?v]. \<forall>i < length (Samples vector).
              snd (o_operation exampleScalar (o_getOperands exampleScalar vector i (o_scalar exampleScalar))
                     (o_operandValIdx exampleScalar))
              \<longrightarrow> i < length (SampleIDs vector)"
    by simp
  have n2: "\<forall>vector \<in> set [?w]. \<forall>i < length (Samples vector).
              \<not> snd (o_operation exampleScalar (o_getOperands exampleScalar vector i (o_scalar exampleScalar))
                     (o_operandValIdx exampleScalar))"
    by (simp add: exampleScalar_def exampleGreater_def getOperandsScalarRight_def less_Suc_eq)
  have k: "filter (\<lambda>st. Samples st \<noteq> [])
             (map (keptStep (o_getOperands exampleScalar) (o_operation exampleScalar)
                     (o_operandValIdx exampleScalar) (o_scalar exampleScalar)) [?v])
           = [\<lparr>T = 0, SampleIDs = [7], Samples = [5]\<rparr>]"
    by (simp add: keptStep_def exampleScalar_def exampleGreater_def getOperandsScalarRight_def
        upt_rec)
  have h2: "fst (aggregate_Next exampleTableMethods ?IT ?hm ?ch None ?a)
              = (Some [\<lparr>T = 0, SampleIDs = [0], Samples = [6]\<rparr>], None)"
    by (simp add: aggregate_Next_def constChild_def exampleAggregate_def once_initializeTables_def
        initializeTables_def initializeVectorizedTables_def newVectorizedTables_def
        newVectorAccumulator_def newVectorAccumulator_str_def GetVectorBatch_def
        exampleWorkers_def exampleTableMethods_def workerTask_def newVectorizedTable_def
        vectorTable_aggregate_def vectorTable_toVector_def GetStepVector_def)
  note t1 = Next_nil_batch_is_terminal_marker
              [of ?ch None exampleScalar _ exampleTableMethods ?IT ?hm ?ch ?a
                  "[\<lparr>T = 0, SampleIDs = [0], Samples = [6]\<rparr>]" "[?v]" "()"]
  note t2 = Next_nil_batch_is_terminal_marker
              [of ?ch' None exampleScalar _ exampleTableMethods ?IT ?hm ?ch ?a _ "[?w]" "()"]
  have r1: "fst (scalar_Next ?ch None exampleScalar) =
              (Some [\<lparr>T = 0, SampleIDs = [7], Samples = [5]\<rparr>], None)"
    using t1 c1 l1 i1 unfolding k by blast
  have r2: "fst (scalar_Next ?ch' None exampleScalar) = (Some [], None)"
    using t2 c2 l2 n2 by blast
  have r3: "\<exists>vs. fst (op_Next ?ch None (a_next ?a)) = (Some vs, None)
                 \<and> length [\<lparr>T = 0, SampleIDs = [0], Samples = [6::float64]\<rparr>] = length vs"
    using t1 h2 by blast
  from r1 r2 h2 r3 show ?thesis by blast
qed

section \<open>Results: pool loans of the vector-scalar operator\<close>

text \<open>
  C8. On a step whose samples are all filtered out the vector-scalar operator returns
  neither vector to its pool. For \<open>m > 2\<close> and a child batch of one step vector with the
  samples 1 and 2, \<open>Next\<close> returns the empty batch, and the pool calls it made are: the
  batch and one step vector taken from its own pool, and the child's batch returned to
  the child's pool. The step vector taken from the operator's pool is not in the
  returned batch and was not put back, and the child's step vector was not put back.
\<close>

theorem scalar_Next_leaks_filtered_step:
  "scalar_Next (constChild [] (Some [\<lparr>T = 30, SampleIDs = [0, 1], Samples = [1, 2]\<rparr>])) None
     exampleScalar =
   ((Some [], None),
    exampleScalar
      \<lparr>o_seriesOnce := True,
       o_trace := [CallGetVectorBatch OwnPool,
                   CallGetStepVector OwnPool 30,
                   CallPutVectors NextPool [\<lparr>T = 30, SampleIDs = [0, 1], Samples = [1, 2]\<rparr>]]\<rparr>)"
  by (simp add: scalar_Next_def constChild_def exampleScalar_def once_scalar_loadSeries_def
      scalar_loadSeries_def GetVectorBatch_def GetStepVector_def getOperandsScalarRight_def
      exampleGreater_def upt_rec)

section \<open>Results: step-invariant operator, contract violation\<close>

text \<open>
  In caching mode, a first child batch of two step vectors whose first step vector is
  empty is not reported: \<open>Next\<close> returns the nil batch and no error.
\<close>

theorem cacheInputVector_empty_first_vector_counterexample:
  "fst (stepInvariant_Next
          (constChild [] (Some [\<lparr>T = 0, SampleIDs = [], Samples = []\<rparr>,
                                \<lparr>T = 1, SampleIDs = [0], Samples = [6]\<rparr>]))
          None
          (NewStepInvariantOperator () OtherExpr
             \<lparr>Start_UnixMilli = 0, End_UnixMilli = 60000, Step_ns = 30000000000\<rparr> 10))
   = (None, None)"
  by (simp add: stepInvariant_Next_def NewStepInvariantOperator_def interval_def cacheInputVector_def
      constChild_def sliceOf_def Milliseconds_def)

text \<open>
  C4 (as amended). For the step-invariant operator in caching mode whose cache has not
  been filled, on a live context and before the end of the range: when the first \<open>Next\<close>
  of the child returns a batch of more than one step vector, the operator's \<open>Next\<close>
  fails with \<open>unexpected number of samples\<close> if the first step vector of that batch has
  at least one sample, and returns the nil batch without error if it has none.
\<close>

theorem stepInvariant_Next_unexpected_number_of_samples:
  assumes "u_cacheResult u" and "\<not> u_cacheVectorOnce u" and "Samples (u_cachedVector u) = []"
    and "u_currentStep u \<le> u_maxt u"
    and "op_Next nx None (u_next u) = ((Some vs, None), c)" and "1 < length vs"
  shows "(Samples (vs ! 0) \<noteq> [] \<longrightarrow>
            fst (stepInvariant_Next nx None u) = (None, Some UnexpectedNumberOfSamples))
       \<and> (Samples (vs ! 0) = [] \<longrightarrow> fst (stepInvariant_Next nx None u) = (None, None))"
  using assms
  by (auto simp: stepInvariant_Next_def cacheInputVector_def sliceOf_def Let_def)

theorem stepInvariant_Next_unexpected_number_of_samples_witness:
  "fst (stepInvariant_Next
          (constChild [] (Some [\<lparr>T = 0, SampleIDs = [0], Samples = [6]\<rparr>,
                                \<lparr>T = 1, SampleIDs = [0], Samples = [6]\<rparr>]))
          None
          (NewStepInvariantOperator () OtherExpr
             \<lparr>Start_UnixMilli = 0, End_UnixMilli = 60000, Step_ns = 30000000000\<rparr> 10))
   = (None, Some UnexpectedNumberOfSamples)"
proof -
  let ?vs = "[\<lparr>T = 0, SampleIDs = [0], Samples = [6]\<rparr>, \<lparr>T = 1, SampleIDs = [0], Samples = [6]\<rparr>]"
  let ?u = "NewStepInvariantOperator () OtherExpr
             \<lparr>Start_UnixMilli = 0, End_UnixMilli = 60000, Step_ns = 30000000000\<rparr> 10"
  have h1: "u_cacheResult ?u" and h2: "\<not> u_cacheVectorOnce ?u"
    and h2': "Samples (u_cachedVector ?u) = []" and h3: "u_currentStep ?u \<le> u_maxt ?u"
    by (simp_all add: NewStepInvariantOperator_def interval_def)
  have h4: "op_Next (constChild [] (Some ?vs)) None (u_next ?u) = ((Some ?vs, None), ())"
    by (simp add: constChild_def)
  have h5: "1 < length ?vs" by simp
  show ?thesis
    using stepInvariant_Next_unexpected_number_of_samples [OF h1 h2 h2' h3 h4 h5] by simp
qed

section \<open>Results: cancellation\<close>

text \<open>
  After an instant query's only step has been emitted, \<open>currentStep\<close> is past \<open>maxt\<close>;
  \<open>Next\<close> on a cancelled context then returns the nil batch and no error.
\<close>

theorem stepInvariant_Next_cancelled_after_end_counterexample:
  "fst (stepInvariant_Next (constChild [] (Some [\<lparr>T = 0, SampleIDs = [0], Samples = [6]\<rparr>]))
          (Some (ContextError ''context canceled''))
          (snd (stepInvariant_Next (constChild [] (Some [\<lparr>T = 0, SampleIDs = [0], Samples = [6]\<rparr>]))
                  None
                  (NewStepInvariantOperator () OtherExpr
                     \<lparr>Start_UnixMilli = 0, End_UnixMilli = 0, Step_ns = 0\<rparr> 10))))
   = (None, None)"
  by (simp add: stepInvariant_Next_def NewStepInvariantOperator_def interval_def cacheInputVector_def
      constChild_def sliceOf_def Milliseconds_def GetStepVector_def GetVectorBatch_def
      replicateSteps.simps wrap64_def)

text \<open>
  C3 (as amended). On a cancelled context, the aggregation's \<open>Next\<close> returns the
  context's error and leaves the operator and its child untouched. The step-invariant
  operator's \<open>Next\<close> first tests the end of the range: while \<open>currentStep \<le> maxt\<close> it
  returns the context's error and leaves the operator and its child untouched, and once
  \<open>currentStep > maxt\<close> it returns the nil batch without error. The vector-scalar
  operator's \<open>Next\<close> returns the error that its child's \<open>Next\<close> returns on that context.
\<close>

theorem Next_on_cancelled_context:
  "aggregate_Next tm IT hm nx (Some cerr) a = ((None, Some cerr), a)
   \<and> (u_currentStep u \<le> u_maxt u \<longrightarrow>
        stepInvariant_Next ny (Some cerr) u = ((None, Some cerr), u))
   \<and> (u_maxt u < u_currentStep u \<longrightarrow>
        stepInvariant_Next ny (Some cerr) u = ((None, None), u))
   \<and> (snd (fst (op_Next nz (Some cerr) (o_next o1))) = Some e \<longrightarrow>
        fst (scalar_Next nz (Some cerr) o1) = (None, Some e))"
  by (auto simp: aggregate_Next_def stepInvariant_Next_def scalar_Next_def Let_def
      split: prod.splits)

theorem Next_on_cancelled_context_witness:
  "stepInvariant_Next (constChild [] None) (Some (ContextError ''context canceled''))
     (NewStepInvariantOperator () OtherExpr
        \<lparr>Start_UnixMilli = 0, End_UnixMilli = 60000, Step_ns = 30000000000\<rparr> 10)
   = ((None, Some (ContextError ''context canceled'')),
      NewStepInvariantOperator () OtherExpr
        \<lparr>Start_UnixMilli = 0, End_UnixMilli = 60000, Step_ns = 30000000000\<rparr> 10)
   \<and> stepInvariant_Next (constChild [] None) (Some (ContextError ''context canceled''))
       ((NewStepInvariantOperator () OtherExpr
           \<lparr>Start_UnixMilli = 0, End_UnixMilli = 60000, Step_ns = 30000000000\<rparr> 10)
          \<lparr>u_currentStep := 90000\<rparr>)
     = ((None, None),
        (NewStepInvariantOperator () OtherExpr
           \<lparr>Start_UnixMilli = 0, End_UnixMilli = 60000, Step_ns = 30000000000\<rparr> 10)
          \<lparr>u_currentStep := 90000\<rparr>)
   \<and> fst (scalar_Next (pollingChild [] (Some [])) (Some (ContextError ''context canceled''))
            exampleScalar)
     = (None, Some (ContextError ''context canceled''))"
proof -
  let ?u = "NewStepInvariantOperator () OtherExpr
        \<lparr>Start_UnixMilli = 0, End_UnixMilli = 60000, Step_ns = 30000000000\<rparr> 10"
  have h1: "u_currentStep ?u \<le> u_maxt ?u"
    by (simp add: NewStepInvariantOperator_def interval_def)
  have h2: "u_maxt (?u\<lparr>u_currentStep := 90000\<rparr>) < u_currentStep (?u\<lparr>u_currentStep := 90000\<rparr>)"
    by (simp add: NewStepInvariantOperator_def interval_def)
  have h3: "snd (fst (op_Next (pollingChild [] (Some [])) (Some (ContextError ''context canceled''))
                  (o_next exampleScalar))) = Some (ContextError ''context canceled'')"
    by (simp add: pollingChild_def)
  show ?thesis
    using Next_on_cancelled_context
            [of exampleTableMethods "[(0::nat) \<mapsto> ''sum'']" "\<lambda>l without lbs. (0, [])"
                "constChild [] None"
                "ContextError ''context canceled''" "exampleAggregate True [] 1"
                ?u "constChild [] None" "pollingChild [] (Some [])" exampleScalar
                "ContextError ''context canceled''"]
          Next_on_cancelled_context
            [of exampleTableMethods "[(0::nat) \<mapsto> ''sum'']" "\<lambda>l without lbs. (0, [])"
                "constChild [] None"
                "ContextError ''context canceled''" "exampleAggregate True [] 1"
                "?u\<lparr>u_currentStep := 90000\<rparr>" "constChild [] None" "pollingChild [] (Some [])"
                exampleScalar "ContextError ''context canceled''"]
          h1 h2 h3
    by blast
qed

section \<open>Results: repeated Series calls\<close>

text \<open>
  With a child whose \<open>Series\<close> fails, the first \<open>Series\<close> call of the step-invariant
  operator and of the aggregation returns the error, and the second call returns the
  empty series list and no error.
\<close>

theorem Series_error_not_memoised_counterexample:
  "fst (stepInvariant_Series (failingChild (OtherError ''storage'')) None
          (NewStepInvariantOperator () OtherExpr
             \<lparr>Start_UnixMilli = 0, End_UnixMilli = 0, Step_ns = 0\<rparr> 10))
     = ([], Some (OtherError ''storage''))
   \<and> fst (stepInvariant_Series (failingChild (OtherError ''storage'')) None
          (snd (stepInvariant_Series (failingChild (OtherError ''storage'')) None
                  (NewStepInvariantOperator () OtherExpr
                     \<lparr>Start_UnixMilli = 0, End_UnixMilli = 0, Step_ns = 0\<rparr> 10))))
     = ([], None)
   \<and> fst (aggregate_Series [(0::nat) \<mapsto> ''sum''] (\<lambda>l without lbs. (0, []))
            (failingChild (OtherError ''storage'')) None (exampleAggregate True [''pod''] 10))
     = ([], Some (OtherError ''storage''))
   \<and> fst (aggregate_Series [(0::nat) \<mapsto> ''sum''] (\<lambda>l without lbs. (0, []))
            (failingChild (OtherError ''storage'')) None
            (snd (aggregate_Series [(0::nat) \<mapsto> ''sum''] (\<lambda>l without lbs. (0, []))
                   (failingChild (OtherError ''storage'')) None (exampleAggregate True [''pod''] 10))))
     = ([], None)"
  by (simp add: stepInvariant_Series_def failingChild_def NewStepInvariantOperator_def interval_def
      aggregate_Series_def once_initializeTables_def initializeTables_def
      initializeScalarTables_def exampleAggregate_def)

lemma stepInvariant_Series_ok_fix:
  "stepInvariant_Series nx ctx u = ((s, None), u1) \<Longrightarrow>
     stepInvariant_Series nx ctx' u1 = ((s, None), u1)"
  by (auto simp: stepInvariant_Series_def Let_def split: if_splits prod.splits option.splits)

lemma stepInvariant_Series_err_next:
  "stepInvariant_Series nx ctx u = ((s, Some e), u1) \<Longrightarrow>
     stepInvariant_Series nx ctx' u1 = ((u_series u1, None), u1)"
  by (auto simp: stepInvariant_Series_def Let_def split: if_splits prod.splits option.splits)

lemma once_initializeTables_once:
  "once_initializeTables IT hm nx ctx a = (err, a1) \<Longrightarrow> a_once a1"
  by (auto simp: once_initializeTables_def initializeTables_def initializeVectorizedTables_def
      initializeScalarTables_def Let_def split: if_splits prod.splits option.splits sum.splits)

lemma once_initializeTables_err_series:
  "once_initializeTables IT hm nx ctx a = (Some e, a1) \<Longrightarrow> a_series a1 = a_series a"
  by (auto simp: once_initializeTables_def initializeTables_def initializeVectorizedTables_def
      initializeScalarTables_def Let_def split: if_splits prod.splits option.splits sum.splits)

lemma aggregate_Series_ok_fix:
  assumes "aggregate_Series IT hm nx ctx a = ((s, None), a1)"
  shows "aggregate_Series IT hm nx ctx' a1 = ((s, None), a1)"
proof -
  obtain err a2 where o: "once_initializeTables IT hm nx ctx a = (err, a2)"
    by (metis prod.exhaust)
  with assms have "err = None" "a2 = a1" "s = a_series a1"
    by (auto simp: aggregate_Series_def split: option.splits)
  moreover from o have "a_once a2" by (rule once_initializeTables_once)
  ultimately show ?thesis
    by (simp add: aggregate_Series_def once_initializeTables_def)
qed

lemma aggregate_Series_err_next:
  assumes "aggregate_Series IT hm nx ctx a = ((s, Some e), a1)"
  shows "aggregate_Series IT hm nx ctx' a1 = ((a_series a, None), a1)"
proof -
  obtain err a2 where o: "once_initializeTables IT hm nx ctx a = (err, a2)"
    by (metis prod.exhaust)
  with assms have "err = Some e" "a2 = a1"
    by (auto simp: aggregate_Series_def split: option.splits)
  moreover from o have "a_once a2" by (rule once_initializeTables_once)
  moreover from o \<open>err = Some e\<close> have "a_series a2 = a_series a"
    by (simp add: once_initializeTables_err_series)
  ultimately show ?thesis
    by (simp add: aggregate_Series_def once_initializeTables_def)
qed

text \<open>
  C7 (as amended). \<open>Series\<close> of the step-invariant operator and of the aggregation is
  idempotent once a call has succeeded: any later call, on any context, returns the same
  series and leaves the operator unchanged. The error of a failed initialisation is
  returned by the failing call only: the call after it returns the series field the
  operator holds (for the aggregation, the one it held before) and no error.
\<close>

theorem Series_idempotent_after_success:
  "(stepInvariant_Series nx ctx u = ((s, None), u1) \<longrightarrow>
      stepInvariant_Series nx ctx' u1 = ((s, None), u1))
   \<and> (aggregate_Series IT hm ny ctx a = ((s', None), a1) \<longrightarrow>
        aggregate_Series IT hm ny ctx' a1 = ((s', None), a1))
   \<and> (stepInvariant_Series nx ctx u = ((s, Some e), u1) \<longrightarrow>
        stepInvariant_Series nx ctx' u1 = ((u_series u1, None), u1))
   \<and> (aggregate_Series IT hm ny ctx a = ((s', Some e'), a1) \<longrightarrow>
        aggregate_Series IT hm ny ctx' a1 = ((a_series a, None), a1))"
  using stepInvariant_Series_ok_fix [of nx ctx u s u1 ctx']
    stepInvariant_Series_err_next [of nx ctx u s e u1 ctx']
    aggregate_Series_ok_fix [of IT hm ny ctx a s' a1 ctx']
    aggregate_Series_err_next [of IT hm ny ctx a s' e' a1 ctx']
  by blast

theorem Series_idempotent_after_success_witness:
  "stepInvariant_Series (constChild [[(''pod'', ''a'')]] None) None
     (snd (stepInvariant_Series (constChild [[(''pod'', ''a'')]] None) None
             (NewStepInvariantOperator () OtherExpr
                \<lparr>Start_UnixMilli = 0, End_UnixMilli = 0, Step_ns = 0\<rparr> 10)))
   = (([[(''pod'', ''a'')]], None),
      snd (stepInvariant_Series (constChild [[(''pod'', ''a'')]] None) None
             (NewStepInvariantOperator () OtherExpr
                \<lparr>Start_UnixMilli = 0, End_UnixMilli = 0, Step_ns = 0\<rparr> 10)))
   \<and> fst (aggregate_Series [(0::nat) \<mapsto> ''sum''] (\<lambda>l without lbs. (0, []))
            (constChild [[(''pod'', ''a'')]] None) None
            (snd (aggregate_Series [(0::nat) \<mapsto> ''sum''] (\<lambda>l without lbs. (0, []))
                    (constChild [[(''pod'', ''a'')]] None) None (exampleAggregate True [] 1))))
     = ([[]], None)
   \<and> fst (stepInvariant_Series (failingChild (OtherError ''storage'')) None
            (snd (stepInvariant_Series (failingChild (OtherError ''storage'')) None
                    (NewStepInvariantOperator () OtherExpr
                       \<lparr>Start_UnixMilli = 0, End_UnixMilli = 0, Step_ns = 0\<rparr> 10))))
     = ([], None)
   \<and> fst (aggregate_Series [(0::nat) \<mapsto> ''sum''] (\<lambda>l without lbs. (0, []))
            (failingChild (OtherError ''storage'')) None
            (snd (aggregate_Series [(0::nat) \<mapsto> ''sum''] (\<lambda>l without lbs. (0, []))
                    (failingChild (OtherError ''storage'')) None
                    (exampleAggregate False [''pod''] 1))))
     = ([], None)"
proof -
  let ?IT = "[(0::nat) \<mapsto> ''sum'']"
  let ?hm = "\<lambda>(l::Labels) (without::bool) (lbs::string list). (0::nat, []::Labels)"
  let ?ok = "constChild [[(''pod'', ''a'')]] None"
  let ?bad = "failingChild (OtherError ''storage'')"
  let ?u = "NewStepInvariantOperator () OtherExpr
              \<lparr>Start_UnixMilli = 0, End_UnixMilli = 0, Step_ns = 0\<rparr> 10"
  let ?a = "exampleAggregate True [] 1"
  let ?b = "exampleAggregate False [''pod''] 1"
  have h1: "stepInvariant_Series ?ok None ?u =
              (([[(''pod'', ''a'')]], None), snd (stepInvariant_Series ?ok None ?u))"
    by (simp add: stepInvariant_Series_def constChild_def NewStepInvariantOperator_def interval_def)
  have h2: "aggregate_Series ?IT ?hm ?ok None ?a =
              (([[]], None), snd (aggregate_Series ?IT ?hm ?ok None ?a))"
    by (simp add: aggregate_Series_def once_initializeTables_def initializeTables_def
        initializeVectorizedTables_def newVectorizedTables_def newVectorAccumulator_def
        newVectorAccumulator_str_def exampleAggregate_def constChild_def)
  have h3: "stepInvariant_Series ?bad None ?u =
              (([], Some (OtherError ''storage'')), snd (stepInvariant_Series ?bad None ?u))"
    by (simp add: stepInvariant_Series_def failingChild_def NewStepInvariantOperator_def interval_def)
  have h4: "aggregate_Series ?IT ?hm ?bad None ?b =
              (([], Some (OtherError ''storage'')), snd (aggregate_Series ?IT ?hm ?bad None ?b))"
    by (simp add: aggregate_Series_def once_initializeTables_def initializeTables_def
        initializeScalarTables_def exampleAggregate_def failingChild_def)
  have s3: "u_series (snd (stepInvariant_Series ?bad None ?u)) = []"
    by (simp add: stepInvariant_Series_def failingChild_def NewStepInvariantOperator_def interval_def)
  have s4: "a_series ?b = []"
    by (simp add: exampleAggregate_def)
  note ok = Series_idempotent_after_success
            [of ?ok None ?u "[[(''pod'', ''a'')]]" "snd (stepInvariant_Series ?ok None ?u)" None
                ?IT ?hm ?ok ?a "[[]]" "snd (aggregate_Series ?IT ?hm ?ok None ?a)"]
  note bad = Series_idempotent_after_success
            [of ?bad None ?u "[]" "snd (stepInvariant_Series ?bad None ?u)" None
                ?IT ?hm ?bad ?b "[]" "snd (aggregate_Series ?IT ?hm ?bad None ?b)"
                "OtherError ''storage''" "OtherError ''storage''"]
  have c1: "stepInvariant_Series ?ok None (snd (stepInvariant_Series ?ok None ?u)) =
              (([[(''pod'', ''a'')]], None), snd (stepInvariant_Series ?ok None ?u))"
    using ok h1 by blast
  have c2: "aggregate_Series ?IT ?hm ?ok None (snd (aggregate_Series ?IT ?hm ?ok None ?a)) =
              (([[]], None), snd (aggregate_Series ?IT ?hm ?ok None ?a))"
    using ok h2 by blast
  have c3: "stepInvariant_Series ?bad None (snd (stepInvariant_Series ?bad None ?u)) =
              ((u_series (snd (stepInvariant_Series ?bad None ?u)), None),
               snd (stepInvariant_Series ?bad None ?u))"
    using bad h3 by blast
  have c4: "aggregate_Series ?IT ?hm ?bad None (snd (aggregate_Series ?IT ?hm ?bad None ?b)) =
              ((a_series ?b, None), snd (aggregate_Series ?IT ?hm ?bad None ?b))"
    using bad h4 by blast
  show ?thesis
    unfolding c1 c2 c3 c4 s3 s4 by simp
qed

section \<open>Results: selector pool key\<close>

lemma foldl_writeMatcher:
  "foldl writeMatcher sb ms =
     sb @ concat (map (\<lambda>m. m_Name m @ sep @ Itoa (m_Type m) @ sep @ m_Value m @ sep) ms)"
  by (induction ms arbitrary: sb) (simp_all add: writeMatcher_def writeString_def)

lemma hashMatchers_written_eq:
  "hashMatchers_written matchers mint maxt hints =
     concat (map (\<lambda>m. m_Name m @ sep @ Itoa (m_Type m) @ sep @ m_Value m @ sep) matchers)
     @ Itoa mint @ sep @ Itoa maxt @ sep @ Itoa (h_Step hints) @ sep @ h_Func hints @ sep
     @ Join (h_Grouping hints) '';'' @ sep @ (if h_By hints then ''true'' else ''false'') @ sep"
  by (simp add: hashMatchers_written_def foldl_writeMatcher writeInt64_def writeString_def
      writeBool_def)

lemma GetSelector_same_key:
  assumes "hashMatchers Sum64 matchers' mint' maxt' hints' = hashMatchers Sum64 matchers mint maxt hints"
  shows "fst (GetSelector Sum64 newSelector
                (snd (GetSelector Sum64 newSelector p mint maxt step matchers hints))
                mint' maxt' step' matchers' hints')
         = fst (GetSelector Sum64 newSelector p mint maxt step matchers hints)"
  using assms by (auto simp: GetSelector_def Let_def split: option.splits)

text \<open>
  The bytes hashed for the grouping \<open>pod, job\<close> differ from those hashed for the same
  hints with the grouping in sorted order, \<open>job, pod\<close>; so it is not the case that every
  \<open>Sum64\<close> gives the two the same key.
\<close>

lemma GetSelector_keeps:
  "selectors p k = Some s \<Longrightarrow>
     selectors (snd (GetSelector Sum64 newSelector p mint maxt step matchers hints)) k = Some s"
  by (auto simp: GetSelector_def Let_def split: option.splits)

lemma GetSelector_calls_keeps:
  "selectors p k = Some s \<Longrightarrow> selectors (GetSelector_calls Sum64 newSelector p calls) k = Some s"
proof (induction calls arbitrary: p)
  case Nil
  then show ?case by simp
next
  case (Cons call rest)
  obtain mint maxt step matchers hints where c: "call = (mint, maxt, step, matchers, hints)"
    by (cases call) auto
  have "selectors (snd (GetSelector Sum64 newSelector p mint maxt step matchers hints)) k = Some s"
    using Cons.prems by (rule GetSelector_keeps)
  from Cons.IH [OF this] show ?case by (simp add: c)
qed

lemma GetSelector_stores:
  "selectors (snd (GetSelector Sum64 newSelector p mint maxt step matchers hints))
     (hashMatchers Sum64 matchers mint maxt hints)
   = Some (fst (GetSelector Sum64 newSelector p mint maxt step matchers hints))"
  by (auto simp: GetSelector_def Let_def split: option.splits)

lemma GetSelector_hit:
  "selectors p (hashMatchers Sum64 matchers mint maxt hints) = Some s \<Longrightarrow>
     fst (GetSelector Sum64 newSelector p mint maxt step matchers hints) = s"
  by (simp add: GetSelector_def Let_def)

lemma GetSelector_same_key_later:
  assumes "hashMatchers Sum64 matchers' mint' maxt' hints' = hashMatchers Sum64 matchers mint maxt hints"
  shows "fst (GetSelector Sum64 newSelector
                (GetSelector_calls Sum64 newSelector
                   (snd (GetSelector Sum64 newSelector p mint maxt step matchers hints)) calls)
                mint' maxt' step' matchers' hints')
         = fst (GetSelector Sum64 newSelector p mint maxt step matchers hints)"
proof -
  let ?p1 = "snd (GetSelector Sum64 newSelector p mint maxt step matchers hints)"
  let ?s = "fst (GetSelector Sum64 newSelector p mint maxt step matchers hints)"
  have "selectors ?p1 (hashMatchers Sum64 matchers mint maxt hints) = Some ?s"
    by (rule GetSelector_stores)
  then have "selectors (GetSelector_calls Sum64 newSelector ?p1 calls)
               (hashMatchers Sum64 matchers' mint' maxt' hints') = Some ?s"
    unfolding assms by (rule GetSelector_calls_keeps)
  then show ?thesis by (rule GetSelector_hit)
qed

theorem hashMatchers_grouping_order_counterexample:
  "hashMatchers_written [] 0 60000
     \<lparr>h_Start = 0, h_End = 60000, h_Step = 30000, h_Func = ''sum'',
      h_Grouping = [''pod'', ''job''], h_By = True, h_Range = 0\<rparr>
   \<noteq> hashMatchers_written [] 0 60000
     \<lparr>h_Start = 0, h_End = 60000, h_Step = 30000, h_Func = ''sum'',
      h_Grouping = [''job'', ''pod''], h_By = True, h_Range = 0\<rparr>
   \<and> \<not> (\<forall>Sum64.
          hashMatchers Sum64 [] 0 60000
            \<lparr>h_Start = 0, h_End = 60000, h_Step = 30000, h_Func = ''sum'',
             h_Grouping = [''pod'', ''job''], h_By = True, h_Range = 0\<rparr>
          = hashMatchers Sum64 [] 0 60000
            \<lparr>h_Start = 0, h_End = 60000, h_Step = 30000, h_Func = ''sum'',
             h_Grouping = [''job'', ''pod''], h_By = True, h_Range = 0\<rparr>)"
proof -
  let ?h1 = "\<lparr>h_Start = 0, h_End = 60000, h_Step = 30000, h_Func = ''sum'',
      h_Grouping = [''pod'', ''job''], h_By = True, h_Range = 0\<rparr>"
  let ?h2 = "\<lparr>h_Start = 0, h_End = 60000, h_Step = 30000, h_Func = ''sum'',
      h_Grouping = [''job'', ''pod''], h_By = True, h_Range = 0\<rparr>"
  have ne: "hashMatchers_written [] 0 60000 ?h1 \<noteq> hashMatchers_written [] 0 60000 ?h2"
    by (simp add: hashMatchers_written_eq)
  have "hashMatchers (\<lambda>sb. if sb = hashMatchers_written [] 0 60000 ?h1 then 1 else 0) [] 0 60000 ?h1
        \<noteq> hashMatchers (\<lambda>sb. if sb = hashMatchers_written [] 0 60000 ?h1 then 1 else 0) [] 0 60000 ?h2"
    using ne by (simp add: hashMatchers_def)
  then have "\<not> (\<forall>Sum64. hashMatchers Sum64 [] 0 60000 ?h1 = hashMatchers Sum64 [] 0 60000 ?h2)"
    by blast
  with ne show ?thesis by blast
qed

text \<open>
  C6 (as amended). The selector pool key is the digest's \<open>Sum64\<close> of the matchers (name,
  type and value each), \<open>mint\<close>, \<open>maxt\<close>, \<open>hints.Step\<close>, \<open>hints.Func\<close>, \<open>hints.Grouping\<close>
  joined by \<open>;\<close> in the order given, and \<open>hints.By\<close>, each followed by the separator
  byte. Consequently a \<open>GetSelector\<close> call whose key equals that of an earlier call on
  the pool, as it does when matchers, \<open>mint\<close>, \<open>maxt\<close> and the hints including the order
  of \<open>Grouping\<close> are the same, returns the selector the earlier call returned, whether
  it follows that call directly or after any number of other \<open>GetSelector\<close> calls on the
  pool: every call stores the selector it returns under its key, no call changes the
  selector stored under a key, and a call whose key is present returns the stored one.
\<close>

theorem hashMatchers_key_and_GetSelector:
  "hashMatchers Sum64 matchers mint maxt hints =
     Sum64 (concat (map (\<lambda>m. m_Name m @ sep @ Itoa (m_Type m) @ sep @ m_Value m @ sep) matchers)
            @ Itoa mint @ sep @ Itoa maxt @ sep @ Itoa (h_Step hints) @ sep @ h_Func hints @ sep
            @ Join (h_Grouping hints) '';'' @ sep
            @ (if h_By hints then ''true'' else ''false'') @ sep)
   \<and> (hashMatchers Sum64 matchers' mint' maxt' hints' = hashMatchers Sum64 matchers mint maxt hints
        \<longrightarrow> fst (GetSelector Sum64 newSelector
                   (snd (GetSelector Sum64 newSelector p mint maxt step matchers hints))
                   mint' maxt' step' matchers' hints')
            = fst (GetSelector Sum64 newSelector p mint maxt step matchers hints))
   \<and> (hashMatchers Sum64 matchers' mint' maxt' hints' = hashMatchers Sum64 matchers mint maxt hints
        \<longrightarrow> fst (GetSelector Sum64 newSelector
                   (GetSelector_calls Sum64 newSelector
                      (snd (GetSelector Sum64 newSelector p mint maxt step matchers hints)) calls)
                   mint' maxt' step' matchers' hints')
            = fst (GetSelector Sum64 newSelector p mint maxt step matchers hints))
   \<and> selectors (snd (GetSelector Sum64 newSelector p mint maxt step matchers hints))
        (hashMatchers Sum64 matchers mint maxt hints)
       = Some (fst (GetSelector Sum64 newSelector p mint maxt step matchers hints))
   \<and> (selectors p key = Some sel \<longrightarrow>
        selectors (snd (GetSelector Sum64 newSelector p mint maxt step matchers hints)) key = Some sel)
   \<and> (selectors p (hashMatchers Sum64 matchers mint maxt hints) = Some sel \<longrightarrow>
        fst (GetSelector Sum64 newSelector p mint maxt step matchers hints) = sel)"
proof (intro conjI impI)
  show "hashMatchers Sum64 matchers mint maxt hints =
     Sum64 (concat (map (\<lambda>m. m_Name m @ sep @ Itoa (m_Type m) @ sep @ m_Value m @ sep) matchers)
            @ Itoa mint @ sep @ Itoa maxt @ sep @ Itoa (h_Step hints) @ sep @ h_Func hints @ sep
            @ Join (h_Grouping hints) '';'' @ sep
            @ (if h_By hints then ''true'' else ''false'') @ sep)"
    by (simp only: hashMatchers_def hashMatchers_written_eq)
next
  assume "hashMatchers Sum64 matchers' mint' maxt' hints' = hashMatchers Sum64 matchers mint maxt hints"
  then show "fst (GetSelector Sum64 newSelector
                   (snd (GetSelector Sum64 newSelector p mint maxt step matchers hints))
                   mint' maxt' step' matchers' hints')
            = fst (GetSelector Sum64 newSelector p mint maxt step matchers hints)"
    by (rule GetSelector_same_key)
next
  assume "hashMatchers Sum64 matchers' mint' maxt' hints' = hashMatchers Sum64 matchers mint maxt hints"
  then show "fst (GetSelector Sum64 newSelector
                   (GetSelector_calls Sum64 newSelector
                      (snd (GetSelector Sum64 newSelector p mint maxt step matchers hints)) calls)
                   mint' maxt' step' matchers' hints')
            = fst (GetSelector Sum64 newSelector p mint maxt step matchers hints)"
    by (rule GetSelector_same_key_later)
next
  show "selectors (snd (GetSelector Sum64 newSelector p mint maxt step matchers hints))
          (hashMatchers Sum64 matchers mint maxt hints)
        = Some (fst (GetSelector Sum64 newSelector p mint maxt step matchers hints))"
    by (rule GetSelector_stores)
next
  assume "selectors p key = Some sel"
  then show "selectors (snd (GetSelector Sum64 newSelector p mint maxt step matchers hints)) key
               = Some sel"
    by (rule GetSelector_keeps)
next
  assume "selectors p (hashMatchers Sum64 matchers mint maxt hints) = Some sel"
  then show "fst (GetSelector Sum64 newSelector p mint maxt step matchers hints) = sel"
    by (rule GetSelector_hit)
qed

theorem hashMatchers_key_and_GetSelector_witness:
  "fst (GetSelector (\<lambda>sb. word_of_nat (length sb)) (\<lambda>q mint maxt step ms h. (mint, maxt, step, ms, h))
          (GetSelector_calls (\<lambda>sb. word_of_nat (length sb))
             (\<lambda>q mint maxt step ms h. (mint, maxt, step, ms, h))
             (snd (GetSelector (\<lambda>sb. word_of_nat (length sb))
                     (\<lambda>q mint maxt step ms h. (mint, maxt, step, ms, h))
                     (NewSelectorPool ()) 0 60000 30000
                     [\<lparr>m_Type = 0, m_Name = ''__name__'', m_Value = ''m''\<rparr>]
                     \<lparr>h_Start = 0, h_End = 60000, h_Step = 30000, h_Func = ''sum'',
                      h_Grouping = [''pod'', ''job''], h_By = True, h_Range = 0\<rparr>))
             [(0, 60000, 30000, [\<lparr>m_Type = 0, m_Name = ''__name__'', m_Value = ''other''\<rparr>],
               \<lparr>h_Start = 0, h_End = 60000, h_Step = 30000, h_Func = ''sum'',
                h_Grouping = [''pod'', ''job''], h_By = True, h_Range = 0\<rparr>),
              (0, 120000, 30000, [],
               \<lparr>h_Start = 0, h_End = 120000, h_Step = 30000, h_Func = ''max'',
                h_Grouping = [], h_By = False, h_Range = 0\<rparr>)])
          0 60000 15000
          [\<lparr>m_Type = 0, m_Name = ''__name__'', m_Value = ''m''\<rparr>]
          \<lparr>h_Start = 0, h_End = 60000, h_Step = 30000, h_Func = ''sum'',
           h_Grouping = [''pod'', ''job''], h_By = True, h_Range = 0\<rparr>)
   = (0, 60000, 30000, [\<lparr>m_Type = 0, m_Name = ''__name__'', m_Value = ''m''\<rparr>],
      \<lparr>h_Start = 0, h_End = 60000, h_Step = 30000, h_Func = ''sum'',
       h_Grouping = [''pod'', ''job''], h_By = True, h_Range = 0\<rparr>)"
proof -
  let ?S = "\<lambda>sb::Digest. (word_of_nat (length sb) :: 64 word)"
  let ?N = "\<lambda>(q::unit) (mint::int) (maxt::int) (step::int) (ms::Matcher list) (h::SelectHints).
              (mint, maxt, step, ms, h)"
  let ?ms = "[\<lparr>m_Type = 0, m_Name = ''__name__'', m_Value = ''m''\<rparr>]"
  let ?h = "\<lparr>h_Start = 0, h_End = 60000, h_Step = 30000, h_Func = ''sum'',
           h_Grouping = [''pod'', ''job''], h_By = True, h_Range = 0\<rparr>"
  let ?calls = "[(0, 60000, 30000, [\<lparr>m_Type = 0, m_Name = ''__name__'', m_Value = ''other''\<rparr>],
               \<lparr>h_Start = 0, h_End = 60000, h_Step = 30000, h_Func = ''sum'',
                h_Grouping = [''pod'', ''job''], h_By = True, h_Range = 0\<rparr>),
              (0, 120000, 30000, [],
               \<lparr>h_Start = 0, h_End = 120000, h_Step = 30000, h_Func = ''max'',
                h_Grouping = [], h_By = False, h_Range = 0\<rparr>)]"
  have k: "hashMatchers ?S ?ms 0 60000 ?h = hashMatchers ?S ?ms 0 60000 ?h" by simp
  have first: "fst (GetSelector ?S ?N (NewSelectorPool ()) 0 60000 30000 ?ms ?h)
                 = (0, 60000, 30000, ?ms, ?h)"
    by (simp add: GetSelector_def NewSelectorPool_def Let_def)
  have "fst (GetSelector ?S ?N
               (GetSelector_calls ?S ?N
                  (snd (GetSelector ?S ?N (NewSelectorPool ()) 0 60000 30000 ?ms ?h)) ?calls)
               0 60000 15000 ?ms ?h)
        = fst (GetSelector ?S ?N (NewSelectorPool ()) 0 60000 30000 ?ms ?h)"
    using hashMatchers_key_and_GetSelector
            [of ?S ?ms 0 60000 ?h ?ms 0 60000 ?h ?N "NewSelectorPool ()" 30000 15000 ?calls] k
    by blast
  then show ?thesis
    unfolding first .
qed

section \<open>Results: sharded series retrieval\<close>

lemma wrap64_id: "- (2 ^ 63) \<le> x \<Longrightarrow> x < 2 ^ 63 \<Longrightarrow> wrap64 x = x"
  by (simp add: wrap64_def)

lemma sdiv_nonneg: "0 \<le> a \<Longrightarrow> 0 < b \<Longrightarrow> a sdiv b = a div (b::int)"
  by (simp add: signed_divide_int_def sgn_if)

lemma signSeries_eq:
  "0 \<le> i \<Longrightarrow> i + int (length ss) < 2 ^ 63 \<Longrightarrow>
     signSeries acc ss i =
       acc @ map (\<lambda>k. \<lparr>Series = ss ! k, Signature = nat i + k\<rparr>) [0 ..< length ss]"
proof (induction ss arbitrary: acc i)
  case Nil
  then show ?case by simp
next
  case (Cons s rest)
  have w: "wrap64 (i + 1) = i + 1"
    using Cons.prems by (intro wrap64_id) auto
  have "signSeries (acc @ [\<lparr>Series = s, Signature = nat i\<rparr>]) rest (i + 1) =
          (acc @ [\<lparr>Series = s, Signature = nat i\<rparr>])
          @ map (\<lambda>k. \<lparr>Series = rest ! k, Signature = nat (i + 1) + k\<rparr>) [0 ..< length rest]"
    using Cons.prems by (intro Cons.IH) auto
  moreover have "[0 ..< length (s # rest)] = 0 # map Suc [0 ..< length rest]"
    by (simp add: upt_conv_Cons map_Suc_upt del: upt_Suc)
  moreover have "nat (i + 1) = Suc (nat i)"
    using Cons.prems by simp
  ultimately show ?case
    using w by (simp add: comp_def)
qed

lemma take_drop_map_nth:
  "lo \<le> hi \<Longrightarrow> hi \<le> length xs \<Longrightarrow> take (hi - lo) (drop lo xs) = map ((!) xs) [lo ..< hi]"
  by (auto simp: list_eq_iff_nth_eq)

lemma shard_bounds:
  fixes shard numShards N :: int
  assumes "0 \<le> shard" "shard < numShards" "0 \<le> N" "numShards * N < 2 ^ 63"
  shows "0 \<le> shard * N" "shard * N < 2 ^ 63" "0 \<le> (shard + 1) * N" "(shard + 1) * N < 2 ^ 63"
    "0 \<le> shard * N div numShards" "shard * N div numShards \<le> (shard + 1) * N div numShards"
    "(shard + 1) * N div numShards \<le> N"
proof -
  have n: "0 < numShards" using assms by simp
  show a: "0 \<le> shard * N" using assms by simp
  have le: "(shard + 1) * N \<le> numShards * N"
    using assms by (intro mult_right_mono) auto
  have le0: "shard * N \<le> (shard + 1) * N"
    using assms by (intro mult_right_mono) auto
  show "shard * N < 2 ^ 63" using le le0 assms(4) by linarith
  show "0 \<le> (shard + 1) * N" using assms by simp
  show "(shard + 1) * N < 2 ^ 63" using le assms(4) by linarith
  show "0 \<le> shard * N div numShards"
    using a n by (simp add: pos_imp_zdiv_nonneg_iff)
  show "shard * N div numShards \<le> (shard + 1) * N div numShards"
    using le0 n by (intro zdiv_mono1) auto
  have "(shard + 1) * N div numShards \<le> numShards * N div numShards"
    using le n by (intro zdiv_mono1) auto
  then show "(shard + 1) * N div numShards \<le> N"
    using n by simp
qed

lemma seriesShard_eq:
  assumes "0 \<le> shard" "shard < numShards" "numShards < 2 ^ 63"
    and "numShards * int (length xs) < 2 ^ 63"
  shows "seriesShard xs shard numShards =
           Inr (map ((!) xs) [nat (shard * int (length xs) div numShards)
                              ..< nat ((shard + 1) * int (length xs) div numShards)])"
proof -
  let ?N = "int (length xs)"
  let ?s = "shard * ?N div numShards"
  let ?e = "(shard + 1) * ?N div numShards"
  note b = shard_bounds [OF assms(1,2) _ assms(4), simplified]
  have n: "0 < numShards" "numShards \<noteq> 0" using assms by auto
  have w1: "wrap64 (shard * ?N) = shard * ?N"
    using b by (intro wrap64_id) auto
  have w2: "wrap64 (shard + 1) = shard + 1"
    using assms by (intro wrap64_id) auto
  have w3: "wrap64 ((shard + 1) * ?N) = (shard + 1) * ?N"
    using b by (intro wrap64_id) (auto simp: algebra_simps)
  have d1: "(shard * ?N) sdiv numShards = ?s"
    using b n by (intro sdiv_nonneg) auto
  have d2: "((shard + 1) * ?N) sdiv numShards = ?e"
    using b n by (intro sdiv_nonneg) (auto simp: algebra_simps)
  have eN: "?e \<le> ?N" using b by (simp add: algebra_simps)
  have se: "?s \<le> ?e" using b by (simp add: algebra_simps)
  have s0: "0 \<le> ?s" using b by simp
  have N63: "?N < 2 ^ 63"
  proof -
    have "1 * ?N \<le> numShards * ?N" using n by (intro mult_right_mono) auto
    with assms(4) show ?thesis by simp
  qed
  have w4: "wrap64 ?s = ?s"
    using s0 se eN N63 by (intro wrap64_id) auto
  have w5: "wrap64 ?e = ?e"
    using s0 se eN N63 by (intro wrap64_id) auto
  have "seriesShard xs shard numShards = Inr (take (nat (?e - ?s)) (drop (nat ?s) xs))"
    using n s0 se eN by (simp add: seriesShard_def Let_def w1 w2 w3 w4 w5 d1 d2)
  moreover have "take (nat (?e - ?s)) (drop (nat ?s) xs) = map ((!) xs) [nat ?s ..< nat ?e]"
  proof -
    have "nat (?e - ?s) = nat ?e - nat ?s" using s0 se by simp
    moreover have "nat ?s \<le> nat ?e" using se by simp
    moreover have "nat ?e \<le> length xs" using eN by simp
    ultimately show ?thesis by (simp add: take_drop_map_nth)
  qed
  ultimately show ?thesis by simp
qed

lemma concat_shards:
  fixes numShards N :: int
  assumes "0 < numShards" "0 \<le> N" "int m \<le> numShards"
  shows "concat (map (\<lambda>i. map f [nat (int i * N div numShards) ..< nat ((int i + 1) * N div numShards)])
                   [0 ..< m])
         = map f [0 ..< nat (int m * N div numShards)]"
  using assms(3)
proof (induction m)
  case 0
  then show ?case by simp
next
  case (Suc m)
  have le: "int m * N div numShards \<le> (int m + 1) * N div numShards"
    using assms(1,2) by (intro zdiv_mono1 mult_right_mono) auto
  have nn: "0 \<le> int m * N div numShards"
    using assms(1,2) by (simp add: pos_imp_zdiv_nonneg_iff)
  have split: "[0 ..< nat ((int m + 1) * N div numShards)] =
          [0 ..< nat (int m * N div numShards)]
          @ [nat (int m * N div numShards) ..< nat ((int m + 1) * N div numShards)]"
    using le nn upt_add_eq_append [of 0 "nat (int m * N div numShards)"
        "nat ((int m + 1) * N div numShards) - nat (int m * N div numShards)"]
    by simp
  have step: "int (Suc m) * N div numShards = (int m + 1) * N div numShards"
    by (simp add: add.commute)
  have ih: "concat (map (\<lambda>i. map f [nat (int i * N div numShards) ..< nat ((int i + 1) * N div numShards)])
                   [0 ..< m])
         = map f [0 ..< nat (int m * N div numShards)]"
    using Suc by simp
  have "concat (map (\<lambda>i. map f [nat (int i * N div numShards) ..< nat ((int i + 1) * N div numShards)])
                   [0 ..< Suc m])
        = map f [0 ..< nat (int m * N div numShards)]
          @ map f [nat (int m * N div numShards) ..< nat ((int m + 1) * N div numShards)]"
    by (simp only: upt_Suc_append [OF le0] map_append concat_append ih list.map concat.simps append_Nil2)
  also have "\<dots> = map f [0 ..< nat ((int m + 1) * N div numShards)]"
    by (simp only: split map_append)
  finally show ?case
    by (simp only: step)
qed

text \<open>
  C9. Let the storage yield the series \<open>ss\<close> without error, \<open>N\<close> its length, and let
  \<open>0 \<le> shard < numShards\<close> with \<open>numShards\<close> and \<open>numShards * N\<close> within the range of
  Go's \<open>int\<close>. Then \<open>GetSeries(shard, numShards)\<close> on the new selector loads all series,
  series \<open>k\<close> signed with \<open>k\<close>, and returns exactly those with
  \<open>shard * N / numShards \<le> k < (shard + 1) * N / numShards\<close>, in order, each with its
  signature \<open>k\<close>; it returns the same on the loaded selector, under any context; and the
  shards for \<open>0, \<dots>, numShards - 1\<close>, concatenated in order, are the loaded series.
\<close>

theorem GetSeries_returns_contiguous_shard:
  assumes "0 \<le> shard" and "shard < numShards" and "numShards < 2 ^ 63"
    and "numShards * int (length ss) < 2 ^ 63"
    and "Querier stg st ctx mint maxt = Inr querier"
    and "Select stg querier hints matchers = (ss, None)"
  shows "GetSeries stg ctx (newSeriesSelector st mint maxt step matchers hints) shard numShards =
           ((map (\<lambda>k. \<lparr>Series = ss ! k, Signature = k\<rparr>)
               [nat (shard * int (length ss) div numShards)
                ..< nat ((shard + 1) * int (length ss) div numShards)], None),
            (newSeriesSelector st mint maxt step matchers hints)
              \<lparr>s_once := True,
               s_series := map (\<lambda>k. \<lparr>Series = ss ! k, Signature = k\<rparr>) [0 ..< length ss]\<rparr>)
       \<and> GetSeries stg ctx'
           ((newSeriesSelector st mint maxt step matchers hints)
              \<lparr>s_once := True,
               s_series := map (\<lambda>k. \<lparr>Series = ss ! k, Signature = k\<rparr>) [0 ..< length ss]\<rparr>)
           shard numShards =
           ((map (\<lambda>k. \<lparr>Series = ss ! k, Signature = k\<rparr>)
               [nat (shard * int (length ss) div numShards)
                ..< nat ((shard + 1) * int (length ss) div numShards)], None),
            (newSeriesSelector st mint maxt step matchers hints)
              \<lparr>s_once := True,
               s_series := map (\<lambda>k. \<lparr>Series = ss ! k, Signature = k\<rparr>) [0 ..< length ss]\<rparr>)
       \<and> concat (map (\<lambda>i. map (\<lambda>k. \<lparr>Series = ss ! k, Signature = k\<rparr>)
                              [nat (int i * int (length ss) div numShards)
                               ..< nat ((int i + 1) * int (length ss) div numShards)])
                     [0 ..< nat numShards])
         = map (\<lambda>k. \<lparr>Series = ss ! k, Signature = k\<rparr>) [0 ..< length ss]"
proof -
  let ?f = "\<lambda>k. \<lparr>Series = ss ! k, Signature = k\<rparr>"
  let ?all = "map ?f [0 ..< length ss]"
  let ?lo = "nat (shard * int (length ss) div numShards)"
  let ?hi = "nat ((shard + 1) * int (length ss) div numShards)"
  let ?sel = "newSeriesSelector st mint maxt step matchers hints"
  have n: "0 < numShards" using assms by simp
  have N63: "int (length ss) < 2 ^ 63"
  proof -
    have "1 * int (length ss) \<le> numShards * int (length ss)"
      using n by (intro mult_right_mono) auto
    with assms(4) show ?thesis by simp
  qed
  have load: "loadSeries stg ctx (?sel\<lparr>s_once := True\<rparr>) =
                (None, ?sel\<lparr>s_once := True, s_series := ?all\<rparr>)"
  proof -
    have "signSeries [] ss 0 = [] @ map (\<lambda>k. \<lparr>Series = ss ! k, Signature = nat 0 + k\<rparr>) [0 ..< length ss]"
      using N63 by (intro signSeries_eq) auto
    then have sg: "signSeries [] ss 0 = ?all" by simp
    show ?thesis
      unfolding loadSeries_def newSeriesSelector_def
      using assms(5,6) sg by simp
  qed
  have len: "length ?all = length ss" by simp
  have hiN: "?hi \<le> length ss"
    using shard_bounds(7) [OF assms(1,2) _ assms(4)] by simp
  have "seriesShard ?all shard numShards = Inr (map ((!) ?all) [?lo ..< ?hi])"
    using seriesShard_eq [of shard numShards ?all] assms(1-4) by simp
  moreover have "map ((!) ?all) [?lo ..< ?hi] = map ?f [?lo ..< ?hi]"
  proof (rule map_cong [OF refl])
    fix k assume "k \<in> set [?lo ..< ?hi]"
    then have "k < length ss" using hiN by simp
    then show "?all ! k = ?f k" by simp
  qed
  ultimately have sh: "seriesShard ?all shard numShards = Inr (map ?f [?lo ..< ?hi])"
    by simp
  have g1: "GetSeries stg ctx ?sel shard numShards =
              ((map ?f [?lo ..< ?hi], None), ?sel\<lparr>s_once := True, s_series := ?all\<rparr>)"
    using load sh by (simp add: GetSeries_def newSeriesSelector_def)
  have g2: "GetSeries stg ctx' (?sel\<lparr>s_once := True, s_series := ?all\<rparr>) shard numShards =
              ((map ?f [?lo ..< ?hi], None), ?sel\<lparr>s_once := True, s_series := ?all\<rparr>)"
    using sh by (simp add: GetSeries_def)
  have "concat (map (\<lambda>i. map ?f [nat (int i * int (length ss) div numShards)
                               ..< nat ((int i + 1) * int (length ss) div numShards)])
                     [0 ..< nat numShards])
        = map ?f [0 ..< nat (int (nat numShards) * int (length ss) div numShards)]"
    using n by (intro concat_shards) auto
  moreover have "int (nat numShards) * int (length ss) div numShards = int (length ss)"
    using n by simp
  ultimately have g3: "concat (map (\<lambda>i. map ?f [nat (int i * int (length ss) div numShards)
                               ..< nat ((int i + 1) * int (length ss) div numShards)])
                     [0 ..< nat numShards]) = ?all"
    by simp
  from g1 g2 g3 show ?thesis by blast
qed

theorem GetSeries_returns_contiguous_shard_witness:
  "fst (GetSeries \<lparr>Querier = (\<lambda>q ctx mint maxt. Inr ()),
                   Select = (\<lambda>r h ms. ([''a'', ''b'', ''c''], None))\<rparr>
          None
          (newSeriesSelector () 0 60000 30000 []
             \<lparr>h_Start = 0, h_End = 60000, h_Step = 30000, h_Func = [],
              h_Grouping = [], h_By = False, h_Range = 0\<rparr>)
          1 2)
   = ([\<lparr>Series = ''b'', Signature = 1\<rparr>, \<lparr>Series = ''c'', Signature = 2\<rparr>], None)"
proof -
  let ?stg = "\<lparr>Querier = (\<lambda>(q::unit) (ctx::Context) (mint::int) (maxt::int). Inr ()),
               Select = (\<lambda>(r::unit) (h::SelectHints) (ms::Matcher list).
                           ([''a'', ''b'', ''c''], None))\<rparr>"
  let ?h = "\<lparr>h_Start = 0, h_End = 60000, h_Step = 30000, h_Func = [],
              h_Grouping = [], h_By = False, h_Range = 0\<rparr>"
  have h1: "(0::int) \<le> 1" and h2: "(1::int) < 2" and h3: "(2::int) < 2 ^ 63"
    and h4: "2 * int (length [''a'', ''b'', ''c'']) < 2 ^ 63"
    by simp_all
  have h5: "Querier ?stg () None 0 60000 = Inr ()" by simp
  have h6: "Select ?stg () ?h [] = ([''a'', ''b'', ''c''], None)" by simp
  have r: "[nat (1 * int (length [''a'', ''b'', ''c'']) div 2)
            ..< nat ((1 + 1) * int (length [''a'', ''b'', ''c'']) div 2)] = [1, 2]"
    by (simp add: upt_rec)
  show ?thesis
    using GetSeries_returns_contiguous_shard [OF h1 h2 h3 h4 h5 h6, of 30000 None]
    unfolding r by simp
qed

section \<open>Results: step-invariant replay\<close>

lemma stepsLeft_step:
  assumes "cur \<le> maxt" "0 < step"
  shows "stepsLeft cur maxt step = Suc (stepsLeft (cur + step) maxt step)"
proof (cases "cur + step \<le> maxt")
  case True
  have "(maxt - cur) div step = (maxt - (cur + step)) div step + 1"
    using div_add_self2 [of step "maxt - (cur + step)"] assms(2) by (simp add: algebra_simps)
  moreover have "0 \<le> (maxt - (cur + step)) div step"
    using True assms(2) by (simp add: pos_imp_zdiv_nonneg_iff)
  ultimately show ?thesis
    using True assms by (simp add: stepsLeft_def nat_add_distrib)
next
  case False
  then have "(maxt - cur) div step = 0"
    using assms by (intro div_pos_pos_trivial) auto
  then show ?thesis
    using False assms by (simp add: stepsLeft_def)
qed

lemma stepsLeft_iff:
  assumes "0 < step"
  shows "k < stepsLeft cur maxt step \<longleftrightarrow> cur + int k * step \<le> maxt"
proof (induction k arbitrary: cur)
  case 0
  then show ?case by (simp add: stepsLeft_def)
next
  case (Suc k)
  show ?case
  proof (cases "cur \<le> maxt")
    case True
    have "Suc k < stepsLeft cur maxt step \<longleftrightarrow> k < stepsLeft (cur + step) maxt step"
      using stepsLeft_step [OF True assms] by simp
    also have "\<dots> \<longleftrightarrow> cur + step + int k * step \<le> maxt"
      by (rule Suc.IH)
    also have "\<dots> \<longleftrightarrow> cur + int (Suc k) * step \<le> maxt"
      by (simp add: algebra_simps)
    finally show ?thesis .
  next
    case False
    have "0 \<le> int (Suc k) * step" using assms by simp
    with False have "\<not> cur + int (Suc k) * step \<le> maxt" by linarith
    with False show ?thesis by (simp add: stepsLeft_def)
  qed
qed

lemma map_shift_upt:
  "map (\<lambda>k. g (cur + int k * step)) [0 ..< Suc m] =
     g cur # map (\<lambda>k. g (cur + step + int k * step)) [0 ..< m]"
proof -
  have "[0 ..< Suc m] = 0 # map Suc [0 ..< m]"
    by (simp add: upt_conv_Cons map_Suc_upt del: upt_Suc)
  then show ?thesis
    by (simp add: comp_def algebra_simps del: upt_Suc)
qed

lemma replicateSteps_eq:
  assumes "0 < step" "- (2 ^ 63) \<le> cur" "maxt + step < 2 ^ 63"
  shows "replicateSteps cv sb maxt step i cur res =
           (res @ map (\<lambda>k. replica cv (cur + int k * step))
                    [0 ..< min (nat (sb - i)) (stepsLeft cur maxt step)],
            cur + int (min (nat (sb - i)) (stepsLeft cur maxt step)) * step)"
  using assms
proof (induction cv sb maxt step i cur res rule: replicateSteps.induct)
  case (1 cv sb maxt step i cur res)
  show ?case
  proof (cases "i < sb \<and> cur \<le> maxt")
    case True
    have w: "wrap64 (cur + step) = cur + step"
      using True "1.prems" by (simp add: wrap64_def)
    let ?m' = "min (nat (sb - (i + 1))) (stepsLeft (cur + step) maxt step)"
    have m: "min (nat (sb - i)) (stepsLeft cur maxt step) = Suc ?m'"
    proof -
      have "nat (sb - i) = Suc (nat (sb - (i + 1)))" using True by linarith
      moreover have "stepsLeft cur maxt step = Suc (stepsLeft (cur + step) maxt step)"
        using True "1.prems" by (intro stepsLeft_step) auto
      ultimately show ?thesis by simp
    qed
    have out: "(GetStepVector cur)\<lparr>Samples := Samples (GetStepVector cur) @ Samples cv,
                  SampleIDs := SampleIDs (GetStepVector cur) @ SampleIDs cv\<rparr> = replica cv cur"
      by (simp add: GetStepVector_def replica_def)
    have ih: "replicateSteps cv sb maxt step (i + 1) (cur + step) (res @ [replica cv cur]) =
            ((res @ [replica cv cur]) @ map (\<lambda>k. replica cv (cur + step + int k * step)) [0 ..< ?m'],
             cur + step + int ?m' * step)"
      using "1.IH" [OF True] True "1.prems" unfolding w out by simp
    have "replicateSteps cv sb maxt step i cur res =
            replicateSteps cv sb maxt step (i + 1) (cur + step) (res @ [replica cv cur])"
      using True by (subst replicateSteps.simps) (simp add: w out)
    also note ih
    finally show ?thesis
      unfolding m map_shift_upt by (simp add: algebra_simps)
  next
    case False
    then have "min (nat (sb - i)) (stepsLeft cur maxt step) = 0"
      by (auto simp: stepsLeft_def)
    moreover have "replicateSteps cv sb maxt step i cur res = (res, cur)"
      using False by (subst replicateSteps.simps) auto
    ultimately show ?thesis by simp
  qed
qed

lemma stepsLeft_add:
  assumes "0 < step"
  shows "m \<le> stepsLeft cur maxt step \<Longrightarrow>
           stepsLeft (cur + int m * step) maxt step = stepsLeft cur maxt step - m"
proof (induction m arbitrary: cur)
  case 0
  then show ?case by simp
next
  case (Suc m)
  then have le: "cur \<le> maxt"
    by (auto simp: stepsLeft_def split: if_splits)
  note st = stepsLeft_step [OF le assms]
  with Suc.prems have "m \<le> stepsLeft (cur + step) maxt step" by simp
  from Suc.IH [OF this] have "stepsLeft (cur + step + int m * step) maxt step =
                               stepsLeft (cur + step) maxt step - m" .
  moreover have "cur + int (Suc m) * step = cur + step + int m * step"
    by (simp add: algebra_simps)
  ultimately show ?case using st by (simp add: add.assoc)
qed

lemma map_upt_split:
  "m \<le> n \<Longrightarrow> map G [0 ..< n] = map G [0 ..< m] @ map (\<lambda>k. G (m + k)) [0 ..< n - m]"
  by (auto simp: list_eq_iff_nth_eq nth_append)

lemma replica_replica: "replica (replica v t) t' = replica v t'"
  by (simp add: replica_def)

lemma stepInvariant_Next_loaded:
  assumes "u_cacheResult u" "u_cacheVectorOnce u" "Samples (u_cachedVector u) \<noteq> []"
    and "u_currentStep u \<le> u_maxt u" "0 < u_step u" "- (2 ^ 63) \<le> u_currentStep u"
    and "u_maxt u + u_step u < 2 ^ 63"
  shows "stepInvariant_Next nx None u =
           ((Some (map (\<lambda>k. replica (u_cachedVector u) (u_currentStep u + int k * u_step u))
                     [0 ..< min (nat (u_stepsBatch u))
                              (stepsLeft (u_currentStep u) (u_maxt u) (u_step u))]), None),
            u\<lparr>u_currentStep :=
                 u_currentStep u
                 + int (min (nat (u_stepsBatch u))
                          (stepsLeft (u_currentStep u) (u_maxt u) (u_step u))) * u_step u\<rparr>)"
  using assms
  by (simp add: stepInvariant_Next_def cacheInputVector_def replicateSteps_eq GetVectorBatch_def)

lemma stepInvariant_Next_fresh:
  assumes "u_cacheResult u" "\<not> u_cacheVectorOnce u"
    and "op_Next nx None (u_next u) = ((Some [v], None), c)" "Samples v \<noteq> []"
    and "u_currentStep u \<le> u_maxt u" "0 < u_step u" "- (2 ^ 63) \<le> u_currentStep u"
    and "u_maxt u + u_step u < 2 ^ 63"
  shows "stepInvariant_Next nx None u =
           ((Some (map (\<lambda>k. replica v (u_currentStep u + int k * u_step u))
                     [0 ..< min (nat (u_stepsBatch u))
                              (stepsLeft (u_currentStep u) (u_maxt u) (u_step u))]), None),
            u\<lparr>u_cacheVectorOnce := True, u_next := c, u_cachedVector := replica v 0,
              u_currentStep :=
                 u_currentStep u
                 + int (min (nat (u_stepsBatch u))
                          (stepsLeft (u_currentStep u) (u_maxt u) (u_step u))) * u_step u\<rparr>)"
proof -
  have c: "cacheInputVector nx None u =
             (None, u\<lparr>u_cacheVectorOnce := True, u_next := c, u_cachedVector := replica v 0\<rparr>)"
    using assms(2,3,4)
    by (simp add: cacheInputVector_def sliceOf_def GetStepVector_def replica_def)
  show ?thesis
    using assms(1,4-8)
    by (simp add: stepInvariant_Next_def c replicateSteps_eq GetVectorBatch_def replica_def)
qed

lemma collectBatches_loaded:
  assumes "u_cacheResult u" "u_cacheVectorOnce u" "Samples (u_cachedVector u) \<noteq> []"
    and "0 < u_step u" "- (2 ^ 63) \<le> u_currentStep u"
    and "u_maxt u + u_step u < 2 ^ 63" "0 < u_stepsBatch u"
  shows "\<exists>fuel bs uf.
           collectBatches fuel nx None u = Some (Inr bs, uf)
         \<and> concat bs = map (\<lambda>k. replica (u_cachedVector u) (u_currentStep u + int k * u_step u))
                          [0 ..< stepsLeft (u_currentStep u) (u_maxt u) (u_step u)]
         \<and> (\<forall>b \<in> set bs. b \<noteq> [] \<and> int (length b) \<le> u_stepsBatch u)
         \<and> u_maxt uf < u_currentStep uf"
  using assms
proof (induction "stepsLeft (u_currentStep u) (u_maxt u) (u_step u)" arbitrary: u rule: less_induct)
  case less
  let ?cur = "u_currentStep u" and ?step = "u_step u" and ?maxt = "u_maxt u"
  let ?n = "stepsLeft ?cur ?maxt ?step"
  show ?case
  proof (cases "?cur \<le> ?maxt")
    case False
    then have "collectBatches (Suc 0) nx None u = Some (Inr [], u)"
      by (simp add: stepInvariant_Next_def)
    moreover have "?n = 0" using False by (simp add: stepsLeft_def)
    ultimately show ?thesis using False
      by (intro exI [of _ "Suc 0"] exI [of _ "[]"] exI [of _ u]) simp
  next
    case True
    let ?m = "min (nat (u_stepsBatch u)) ?n"
    let ?b = "map (\<lambda>k. replica (u_cachedVector u) (?cur + int k * ?step)) [0 ..< ?m]"
    let ?u' = "u\<lparr>u_currentStep := ?cur + int ?m * ?step\<rparr>"
    have npos: "0 < ?n" using True by (simp add: stepsLeft_def)
    have mpos: "0 < ?m" using npos less.prems(7) by simp
    have mle: "?m \<le> ?n" by simp
    have nx: "stepInvariant_Next nx None u = ((Some ?b, None), ?u')"
      using less.prems True by (intro stepInvariant_Next_loaded) auto
    have left: "stepsLeft (u_currentStep ?u') (u_maxt ?u') (u_step ?u') = ?n - ?m"
      using stepsLeft_add [OF less.prems(4) mle] by simp
    have lt: "stepsLeft (u_currentStep ?u') (u_maxt ?u') (u_step ?u') < ?n"
      using left mpos npos by simp
    have ge: "- (2 ^ 63) \<le> u_currentStep ?u'"
    proof -
      have "0 \<le> int ?m * ?step" using less.prems(4) by simp
      with less.prems(5) show ?thesis by simp
    qed
    obtain fuel bs uf where
      cb: "collectBatches fuel nx None ?u' = Some (Inr bs, uf)"
      and cc: "concat bs = map (\<lambda>k. replica (u_cachedVector ?u') (u_currentStep ?u' + int k * u_step ?u'))
                             [0 ..< stepsLeft (u_currentStep ?u') (u_maxt ?u') (u_step ?u')]"
      and bb: "\<forall>b \<in> set bs. b \<noteq> [] \<and> int (length b) \<le> u_stepsBatch ?u'"
      and ee: "u_maxt uf < u_currentStep uf"
      using less.hyps [OF lt] less.prems ge by auto
    have c1: "collectBatches (Suc fuel) nx None u = Some (Inr (?b # bs), uf)"
      using nx cb by simp
    have "concat (?b # bs) =
            ?b @ map (\<lambda>k. replica (u_cachedVector u) (?cur + int (?m + k) * ?step)) [0 ..< ?n - ?m]"
      using cc left by (simp add: algebra_simps)
    also have "\<dots> = map (\<lambda>k. replica (u_cachedVector u) (?cur + int k * ?step)) [0 ..< ?n]"
      using map_upt_split [OF mle, of "\<lambda>k. replica (u_cachedVector u) (?cur + int k * ?step)"]
      by simp
    finally have c2: "concat (?b # bs) =
                        map (\<lambda>k. replica (u_cachedVector u) (?cur + int k * ?step)) [0 ..< ?n]" .
    have c3: "\<forall>b \<in> set (?b # bs). b \<noteq> [] \<and> int (length b) \<le> u_stepsBatch u"
      using bb mpos less.prems(7) by auto
    from c1 c2 c3 ee show ?thesis by blast
  qed
qed

lemma interval_pos: "0 \<le> Step_ns opts \<Longrightarrow> 0 < interval opts"
proof -
  assume "0 \<le> Step_ns opts"
  then have "Milliseconds (Step_ns opts) = Step_ns opts div 1000000"
    unfolding Milliseconds_def by (intro sdiv_nonneg) auto
  moreover have "0 \<le> Step_ns opts div 1000000"
    using \<open>0 \<le> Step_ns opts\<close> by (simp add: pos_imp_zdiv_nonneg_iff)
  ultimately show ?thesis by (simp add: interval_def)
qed

lemma stepInvariant_replay_interval:
  assumes "0 < stepsBatch" and "0 \<le> Step_ns opts" and "- (2 ^ 63) \<le> Start_UnixMilli opts"
    and "End_UnixMilli opts + interval opts < 2 ^ 63"
    and "op_Next nx None c = ((Some [v], None), c')" and "Samples v \<noteq> []"
  shows "\<exists>fuel bs uf.
           collectBatches fuel nx None (NewStepInvariantOperator c OtherExpr opts stepsBatch)
             = Some (Inr bs, uf)
         \<and> concat bs =
             map (\<lambda>k. \<lparr>T = Start_UnixMilli opts + int k * interval opts,
                        SampleIDs = SampleIDs v, Samples = Samples v\<rparr>)
               [0 ..< stepsLeft (Start_UnixMilli opts) (End_UnixMilli opts) (interval opts)]
         \<and> (\<forall>k. k < stepsLeft (Start_UnixMilli opts) (End_UnixMilli opts) (interval opts)
                  \<longleftrightarrow> Start_UnixMilli opts + int k * interval opts \<le> End_UnixMilli opts)
         \<and> (\<forall>b \<in> set bs. b \<noteq> [] \<and> int (length b) \<le> stepsBatch)
         \<and> u_maxt uf < u_currentStep uf
         \<and> (\<forall>ctx. stepInvariant_Next nx ctx uf = ((None, None), uf))"
proof -
  let ?u = "NewStepInvariantOperator c OtherExpr opts stepsBatch"
  let ?mint = "Start_UnixMilli opts" and ?maxt = "End_UnixMilli opts" and ?step = "interval opts"
  let ?n = "stepsLeft ?mint ?maxt ?step"
  have sp: "0 < ?step" using assms(2) by (rule interval_pos)
  have f: "u_cacheResult ?u" "\<not> u_cacheVectorOnce ?u" "u_next ?u = c" "u_currentStep ?u = ?mint"
    "u_maxt ?u = ?maxt" "u_step ?u = ?step" "u_stepsBatch ?u = stepsBatch"
    by (simp_all add: NewStepInvariantOperator_def)
  have iff: "\<forall>k. k < ?n \<longleftrightarrow> ?mint + int k * ?step \<le> ?maxt"
    using stepsLeft_iff [OF sp] by blast
  have fin: "\<forall>ctx. stepInvariant_Next nx ctx uf = ((None, None), uf)"
    if "u_maxt uf < u_currentStep uf" for uf :: "'a stepInvariantOperator"
    using that by (simp add: stepInvariant_Next_def)
  have "\<exists>fuel bs uf.
           collectBatches fuel nx None ?u = Some (Inr bs, uf)
         \<and> concat bs = map (\<lambda>k. replica v (?mint + int k * ?step)) [0 ..< ?n]
         \<and> (\<forall>b \<in> set bs. b \<noteq> [] \<and> int (length b) \<le> stepsBatch)
         \<and> u_maxt uf < u_currentStep uf"
  proof (cases "?mint \<le> ?maxt")
    case False
    then have "collectBatches (Suc 0) nx None ?u = Some (Inr [], ?u)"
      using f by (simp add: stepInvariant_Next_def)
    moreover have "?n = 0" using False by (simp add: stepsLeft_def)
    moreover have "u_maxt ?u < u_currentStep ?u" using False f by simp
    ultimately show ?thesis
      by (intro exI [of _ "Suc 0"] exI [of _ "[]"] exI [of _ ?u]) simp
  next
    case True
    let ?m = "min (nat stepsBatch) ?n"
    let ?b = "map (\<lambda>k. replica v (?mint + int k * ?step)) [0 ..< ?m]"
    let ?u' = "?u\<lparr>u_cacheVectorOnce := True, u_next := c', u_cachedVector := replica v 0,
                  u_currentStep := ?mint + int ?m * ?step\<rparr>"
    have npos: "0 < ?n" using True by (simp add: stepsLeft_def)
    have mpos: "0 < ?m" using npos assms(1) by simp
    have mle: "?m \<le> ?n" by simp
    have "stepInvariant_Next nx None ?u =
            ((Some (map (\<lambda>k. replica v (u_currentStep ?u + int k * u_step ?u))
                     [0 ..< min (nat (u_stepsBatch ?u))
                              (stepsLeft (u_currentStep ?u) (u_maxt ?u) (u_step ?u))]), None),
             ?u\<lparr>u_cacheVectorOnce := True, u_next := c', u_cachedVector := replica v 0,
                u_currentStep :=
                  u_currentStep ?u
                  + int (min (nat (u_stepsBatch ?u))
                          (stepsLeft (u_currentStep ?u) (u_maxt ?u) (u_step ?u))) * u_step ?u\<rparr>)"
      using f True sp assms(3-6) by (intro stepInvariant_Next_fresh) auto
    then have nx: "stepInvariant_Next nx None ?u = ((Some ?b, None), ?u')"
      by (simp only: f)
    have u': "u_cacheResult ?u'" "u_cacheVectorOnce ?u'" "Samples (u_cachedVector ?u') \<noteq> []"
      "0 < u_step ?u'" "u_maxt ?u' + u_step ?u' < 2 ^ 63" "0 < u_stepsBatch ?u'"
      using f sp assms by (simp_all add: replica_def)
    have ge: "- (2 ^ 63) \<le> u_currentStep ?u'"
    proof -
      have "0 \<le> int ?m * ?step" using sp by simp
      with assms(3) show ?thesis by simp
    qed
    have left: "stepsLeft (u_currentStep ?u') (u_maxt ?u') (u_step ?u') = ?n - ?m"
      using stepsLeft_add [OF sp mle] f by simp
    obtain fuel bs uf where
      cb: "collectBatches fuel nx None ?u' = Some (Inr bs, uf)"
      and cc: "concat bs = map (\<lambda>k. replica (u_cachedVector ?u') (u_currentStep ?u' + int k * u_step ?u'))
                             [0 ..< stepsLeft (u_currentStep ?u') (u_maxt ?u') (u_step ?u')]"
      and bb: "\<forall>b \<in> set bs. b \<noteq> [] \<and> int (length b) \<le> u_stepsBatch ?u'"
      and ee: "u_maxt uf < u_currentStep uf"
      using collectBatches_loaded [OF u'(1,2,3,4) ge u'(5,6), of nx] by blast
    have c1: "collectBatches (Suc fuel) nx None ?u = Some (Inr (?b # bs), uf)"
      using nx cb by simp
    have "concat (?b # bs) = ?b @ map (\<lambda>k. replica v (?mint + int (?m + k) * ?step)) [0 ..< ?n - ?m]"
      using cc left f by (simp add: algebra_simps replica_replica)
    also have "\<dots> = map (\<lambda>k. replica v (?mint + int k * ?step)) [0 ..< ?n]"
      using map_upt_split [OF mle, of "\<lambda>k. replica v (?mint + int k * ?step)"] by simp
    finally have c2: "concat (?b # bs) = map (\<lambda>k. replica v (?mint + int k * ?step)) [0 ..< ?n]" .
    have c3: "\<forall>b \<in> set (?b # bs). b \<noteq> [] \<and> int (length b) \<le> stepsBatch"
      using bb mpos assms(1) f by auto
    from c1 c2 c3 ee show ?thesis by blast
  qed
  then obtain fuel bs uf where
    r: "collectBatches fuel nx None ?u = Some (Inr bs, uf)"
      "concat bs = map (\<lambda>k. replica v (?mint + int k * ?step)) [0 ..< ?n]"
      "\<forall>b \<in> set bs. b \<noteq> [] \<and> int (length b) \<le> stepsBatch"
      "u_maxt uf < u_currentStep uf"
    by blast
  from r(2) have r2: "concat bs =
             map (\<lambda>k. \<lparr>T = ?mint + int k * ?step, SampleIDs = SampleIDs v, Samples = Samples v\<rparr>)
               [0 ..< ?n]"
    by (simp add: replica_def)
  from r(1) r2 iff r(3) r(4) fin [OF r(4)] show ?thesis by blast
qed

lemma interval_eq:
  assumes "0 \<le> Step_ns opts"
  shows "interval opts = (if Step_ns opts div 1000000 = 0 then 1 else Step_ns opts div 1000000)"
proof -
  have "Milliseconds (Step_ns opts) = Step_ns opts div 1000000"
    unfolding Milliseconds_def using assms by (intro sdiv_nonneg) auto
  then show ?thesis by (simp add: interval_def)
qed

text \<open>
  C5. Let the step-invariant operator be built in caching mode over a child whose \<open>Next\<close>
  returns exactly one step vector \<open>v\<close> with at least one sample, with a positive
  \<open>stepsBatch\<close> and a non-negative query step; let \<open>step\<close> be the query step in whole
  milliseconds, or 1 when that is 0, and let \<open>mint\<close> and \<open>maxt + step\<close> be within the
  range of \<open>int64\<close>. Let \<open>Next\<close> be called on a live context until it returns the nil
  batch. Then that happens after finitely many calls, none fails, and the batches
  returned, concatenated, are the step vectors with the timestamps \<open>mint\<close>,
  \<open>mint + step\<close>, \<open>mint + 2 * step\<close>, \<dots> for exactly the timestamps \<open>\<le> maxt\<close>, each
  carrying the samples and sample ids of \<open>v\<close>; every batch is non-empty and of length at
  most \<open>stepsBatch\<close>; at the end \<open>currentStep\<close> exceeds \<open>maxt\<close> and every further \<open>Next\<close>
  returns the nil batch.
\<close>

theorem stepInvariant_replays_cached_vector:
  assumes "0 < stepsBatch" and "0 \<le> Step_ns opts"
    and "step = (if Step_ns opts div 1000000 = 0 then 1 else Step_ns opts div 1000000)"
    and "- (2 ^ 63) \<le> Start_UnixMilli opts" and "End_UnixMilli opts + step < 2 ^ 63"
    and "op_Next nx None c = ((Some [v], None), c')" and "Samples v \<noteq> []"
  shows "\<exists>fuel bs uf.
           collectBatches fuel nx None (NewStepInvariantOperator c OtherExpr opts stepsBatch)
             = Some (Inr bs, uf)
         \<and> concat bs =
             map (\<lambda>k. \<lparr>T = Start_UnixMilli opts + int k * step,
                        SampleIDs = SampleIDs v, Samples = Samples v\<rparr>)
               [0 ..< stepsLeft (Start_UnixMilli opts) (End_UnixMilli opts) step]
         \<and> (\<forall>k. k < stepsLeft (Start_UnixMilli opts) (End_UnixMilli opts) step
                  \<longleftrightarrow> Start_UnixMilli opts + int k * step \<le> End_UnixMilli opts)
         \<and> (\<forall>b \<in> set bs. b \<noteq> [] \<and> int (length b) \<le> stepsBatch)
         \<and> u_maxt uf < u_currentStep uf
         \<and> (\<forall>ctx. stepInvariant_Next nx ctx uf = ((None, None), uf))"
proof -
  have i: "interval opts = step"
    using interval_eq [OF assms(2)] assms(3) by simp
  show ?thesis
    using stepInvariant_replay_interval [OF assms(1,2,4) _ assms(6,7)] assms(5)
    unfolding i by simp
qed

theorem stepInvariant_replays_cached_vector_witness:
  "(\<exists>fuel bs uf.
      collectBatches fuel (constChild [] (Some [\<lparr>T = 0, SampleIDs = [0], Samples = [6]\<rparr>])) None
        (NewStepInvariantOperator () OtherExpr
           \<lparr>Start_UnixMilli = 0, End_UnixMilli = 60000, Step_ns = 30000000000\<rparr> 2)
        = Some (Inr bs, uf)
    \<and> concat bs = [\<lparr>T = 0, SampleIDs = [0], Samples = [6]\<rparr>,
                    \<lparr>T = 30000, SampleIDs = [0], Samples = [6]\<rparr>,
                    \<lparr>T = 60000, SampleIDs = [0], Samples = [6]\<rparr>]
    \<and> (\<forall>b \<in> set bs. b \<noteq> [] \<and> int (length b) \<le> 2))
   \<and> (\<exists>fuel bs uf.
      collectBatches fuel (constChild [] (Some [\<lparr>T = 0, SampleIDs = [0], Samples = [6]\<rparr>])) None
        (NewStepInvariantOperator () OtherExpr
           \<lparr>Start_UnixMilli = 1000, End_UnixMilli = 1002, Step_ns = 0\<rparr> 10)
        = Some (Inr bs, uf)
    \<and> concat bs = [\<lparr>T = 1000, SampleIDs = [0], Samples = [6]\<rparr>,
                    \<lparr>T = 1001, SampleIDs = [0], Samples = [6]\<rparr>,
                    \<lparr>T = 1002, SampleIDs = [0], Samples = [6]\<rparr>]
    \<and> (\<forall>b \<in> set bs. b \<noteq> [] \<and> int (length b) \<le> 10))"
proof -
  let ?v = "\<lparr>T = 0, SampleIDs = [0], Samples = [6]\<rparr>"
  let ?opts = "\<lparr>Start_UnixMilli = 0, End_UnixMilli = 60000, Step_ns = 30000000000\<rparr>"
  let ?inst = "\<lparr>Start_UnixMilli = 1000, End_UnixMilli = 1002, Step_ns = 0\<rparr>"
  have h5: "op_Next (constChild [] (Some [?v])) None () = ((Some [?v], None), ())"
    by (simp add: constChild_def)
  have h6: "Samples ?v \<noteq> []" by simp
  have a1: "(0::int) < 2" by simp
  have a2: "0 \<le> Step_ns ?opts" by simp
  have a3: "(30000::int) = (if Step_ns ?opts div 1000000 = 0 then 1 else Step_ns ?opts div 1000000)"
    by simp
  have a4: "- (2 ^ 63) \<le> Start_UnixMilli ?opts" by simp
  have a5: "End_UnixMilli ?opts + 30000 < 2 ^ 63" by simp
  have an: "stepsLeft (Start_UnixMilli ?opts) (End_UnixMilli ?opts) 30000 = 3"
    by (simp add: stepsLeft_def)
  have al: "map (\<lambda>k. \<lparr>T = Start_UnixMilli ?opts + int k * 30000,
                        SampleIDs = SampleIDs ?v, Samples = Samples ?v\<rparr>) [0 ..< 3]
           = [\<lparr>T = 0, SampleIDs = [0], Samples = [6]\<rparr>,
              \<lparr>T = 30000, SampleIDs = [0], Samples = [6]\<rparr>,
              \<lparr>T = 60000, SampleIDs = [0], Samples = [6]\<rparr>]"
    by (simp add: upt_rec)
  have first: "\<exists>fuel bs uf.
      collectBatches fuel (constChild [] (Some [?v])) None
        (NewStepInvariantOperator () OtherExpr ?opts 2) = Some (Inr bs, uf)
    \<and> concat bs = [\<lparr>T = 0, SampleIDs = [0], Samples = [6]\<rparr>,
                    \<lparr>T = 30000, SampleIDs = [0], Samples = [6]\<rparr>,
                    \<lparr>T = 60000, SampleIDs = [0], Samples = [6]\<rparr>]
    \<and> (\<forall>b \<in> set bs. b \<noteq> [] \<and> int (length b) \<le> 2)"
    using stepInvariant_replays_cached_vector [OF a1 a2 a3 a4 a5 h5 h6]
    unfolding an al by blast
  have b1: "(0::int) < 10" by simp
  have b2: "0 \<le> Step_ns ?inst" by simp
  have b3: "(1::int) = (if Step_ns ?inst div 1000000 = 0 then 1 else Step_ns ?inst div 1000000)"
    by simp
  have b4: "- (2 ^ 63) \<le> Start_UnixMilli ?inst" by simp
  have b5: "End_UnixMilli ?inst + 1 < 2 ^ 63" by simp
  have bn: "stepsLeft (Start_UnixMilli ?inst) (End_UnixMilli ?inst) 1 = 3"
    by (simp add: stepsLeft_def)
  have bl: "map (\<lambda>k. \<lparr>T = Start_UnixMilli ?inst + int k * 1,
                        SampleIDs = SampleIDs ?v, Samples = Samples ?v\<rparr>) [0 ..< 3]
           = [\<lparr>T = 1000, SampleIDs = [0], Samples = [6]\<rparr>,
              \<lparr>T = 1001, SampleIDs = [0], Samples = [6]\<rparr>,
              \<lparr>T = 1002, SampleIDs = [0], Samples = [6]\<rparr>]"
    by (simp add: upt_rec)
  have second: "\<exists>fuel bs uf.
      collectBatches fuel (constChild [] (Some [?v])) None
        (NewStepInvariantOperator () OtherExpr ?inst 10) = Some (Inr bs, uf)
    \<and> concat bs = [\<lparr>T = 1000, SampleIDs = [0], Samples = [6]\<rparr>,
                    \<lparr>T = 1001, SampleIDs = [0], Samples = [6]\<rparr>,
                    \<lparr>T = 1002, SampleIDs = [0], Samples = [6]\<rparr>]
    \<and> (\<forall>b \<in> set bs. b \<noteq> [] \<and> int (length b) \<le> 10)"
    using stepInvariant_replays_cached_vector [OF b1 b2 b3 b4 b5 h5 h6]
    unfolding bn bl by blast
  from first second show ?thesis by blast
qed

end
